theory Spec2Isabelle
  imports
    Main
    "HOL-Library.AList"
    "HOL-Library.Sublist"
    "HOL-Library.Multiset"
    "HOL-Library.Char_ord"
    "HOL-Library.List_Lexorder"
    "HOL-Library.Product_Lexorder"
begin

section \<open>JavaScript values\<close>

text \<open>
  The repository layer \<^verbatim>\<open>apps/api/src/organization/repository.js\<close> works on
  JSON-like values: payloads parsed from a request body and rows returned by the database
  client. A value is a scalar, an array or an object; an object is an association list of
  its own enumerable properties in insertion order. Numbers are the integers (identifiers,
  counts); the layer does no arithmetic on them.
\<close>

datatype jsval =
    JUndefined
  | JNull
  | JBool bool
  | JNum int
  | JStr string
  | JArr "jsval list"
  | JObj "(string \<times> jsval) list"

type_synonym obj = "(string \<times> jsval) list"

text \<open>Truthiness, as used by \<^verbatim>\<open>if (v)\<close>, \<^verbatim>\<open>!v\<close>, \<^verbatim>\<open>a && b\<close>, \<^verbatim>\<open>a || b\<close> and \<^verbatim>\<open>.filter((id) => id)\<close>.\<close>

fun truthy :: "jsval \<Rightarrow> bool" where
  "truthy JUndefined = False"
| "truthy JNull = False"
| "truthy (JBool b) = b"
| "truthy (JNum n) = (n \<noteq> 0)"
| "truthy (JStr s) = (s \<noteq> [])"
| "truthy (JArr xs) = True"
| "truthy (JObj ps) = True"

fun nullish :: "jsval \<Rightarrow> bool" where
  "nullish JUndefined = True"
| "nullish JNull = True"
| "nullish v = False"

fun scalar :: "jsval \<Rightarrow> bool" where
  "scalar (JArr xs) = False"
| "scalar (JObj ps) = False"
| "scalar v = True"

text \<open>
  \<^verbatim>\<open>Array.prototype.includes\<close> compares with SameValueZero. On scalars that is equality
  of the values. Arrays and objects compare by reference; a value read from the database and
  a value parsed from the payload are never the same reference, so two compound values are
  never found equal.
\<close>

definition sameValueZero :: "jsval \<Rightarrow> jsval \<Rightarrow> bool" where
  "sameValueZero a b = (scalar a \<and> a = b)"

definition includes_js :: "jsval list \<Rightarrow> jsval \<Rightarrow> bool" where
  "includes_js xs v = list_ex (\<lambda>x. sameValueZero x v) xs"

text \<open>The thrown value of a failed property access on \<^verbatim>\<open>undefined\<close> or \<^verbatim>\<open>null\<close>,
  or of a call of a method the receiver does not have.\<close>

definition TypeError :: jsval where
  "TypeError = JStr ''TypeError''"

subsection \<open>Objects\<close>

text \<open>\<^verbatim>\<open>o[k]\<close> on an object: the property's value, \<^verbatim>\<open>undefined\<close> when absent.\<close>

definition getProp :: "obj \<Rightarrow> string \<Rightarrow> jsval" where
  "getProp ob k = (case map_of ob k of None \<Rightarrow> JUndefined | Some v \<Rightarrow> v)"

text \<open>
  \<^verbatim>\<open>v.k\<close> for a property name \<open>k\<close> that is neither an index nor a built-in of the
  String, Number, Boolean or Array prototypes (every name read by the repository layer is
  such a name): a TypeError on \<^verbatim>\<open>undefined\<close> and \<^verbatim>\<open>null\<close>, the property on an
  object, \<^verbatim>\<open>undefined\<close> on anything else.
\<close>

fun member :: "jsval \<Rightarrow> string \<Rightarrow> jsval + jsval" where
  "member JUndefined k = Inl TypeError"
| "member JNull k = Inl TypeError"
| "member (JObj ps) k = Inr (getProp ps k)"
| "member v k = Inr JUndefined"

text \<open>Decimal rendering of an index or of a number in a template literal.\<close>

definition digit :: "nat \<Rightarrow> char" where
  "digit n = ''0123456789'' ! n"

fun decimal :: "nat \<Rightarrow> string" where
  "decimal n =
     (if n < 10 then [digit n] else decimal (n div 10) @ [digit (n mod 10)])"

definition indexed :: "jsval list \<Rightarrow> obj" where
  "indexed xs = zip (map decimal [0..<length xs]) xs"

text \<open>
  The own enumerable properties of a value, as the object spread \<^verbatim>\<open>{...v}\<close> and
  lodash's \<^verbatim>\<open>omit\<close> and \<^verbatim>\<open>pick\<close> see them: the properties of an object, the
  indices of an array or of a string, none for the other scalars.
\<close>

fun spread :: "jsval \<Rightarrow> obj" where
  "spread (JObj ps) = ps"
| "spread (JArr xs) = indexed xs"
| "spread (JStr s) = indexed (map (\<lambda>c. JStr [c]) s)"
| "spread v = []"

text \<open>\<^verbatim>\<open>v[0]\<close>, as in \<^verbatim>\<open>dataFromApi.contactPoints[0]\<close>.\<close>

fun index0 :: "jsval \<Rightarrow> jsval + jsval" where
  "index0 JUndefined = Inl TypeError"
| "index0 JNull = Inl TypeError"
| "index0 (JArr []) = Inr JUndefined"
| "index0 (JArr (x # xs)) = Inr x"
| "index0 (JStr []) = Inr JUndefined"
| "index0 (JStr (c # cs)) = Inr (JStr [c])"
| "index0 (JObj ps) = Inr (getProp ps ''0'')"
| "index0 v = Inr JUndefined"

text \<open>
  A property written in an object literal after a spread, \<^verbatim>\<open>{...o, k: v}\<close>: an existing
  key keeps its place and takes the new value, a new key goes to the end. This is
  \<^const>\<open>AList.update\<close>.

  lodash \<^verbatim>\<open>omit(o, ks)\<close> copies \<open>o\<close> without the keys \<open>ks\<close>, in the order of \<open>o\<close>;
  lodash \<^verbatim>\<open>pick(o, ks)\<close> builds an object from those of \<open>ks\<close> that are in \<open>o\<close>, in the
  order of \<open>ks\<close>.
\<close>

definition omit :: "obj \<Rightarrow> string list \<Rightarrow> obj" where
  "omit ob ks = filter (\<lambda>p. fst p \<notin> set ks) ob"

definition pick :: "obj \<Rightarrow> string list \<Rightarrow> obj" where
  "pick ob ks =
     concat (map (\<lambda>k. case map_of ob k of None \<Rightarrow> [] | Some v \<Rightarrow> [(k, v)]) ks)"

text \<open>\<^verbatim>\<open>a || null\<close>\<close>

definition orNull :: "jsval \<Rightarrow> jsval" where
  "orNull v = (if truthy v then v else JNull)"

section \<open>The shape formatters\<close>

definition addressColumns :: "string list" where
  "addressColumns = [''addressCountry'', ''addressLocality'', ''postalCode'', ''streetAddress'']"

text \<open>
  \<^verbatim>\<open>formatOrganizationForAPI\<close>: the four flat address columns move into a nested
  \<^verbatim>\<open>address\<close> object, which is written last.
\<close>

definition formatOrganizationForAPI :: "obj \<Rightarrow> obj" where
  "formatOrganizationForAPI dbOrganization =
     AList.update ''address'' (JObj (pick dbOrganization addressColumns))
       (omit dbOrganization addressColumns)"

record prepared =
  organization :: obj
  contactPoint :: jsval
  contactPoints :: jsval

text \<open>
  \<^verbatim>\<open>prepareOrganizationDataForSave\<close>. The four reads \<^verbatim>\<open>dataFromApi.address.k\<close>
  throw when \<^verbatim>\<open>address\<close> is \<^verbatim>\<open>undefined\<close> or \<^verbatim>\<open>null\<close>; then
  \<^verbatim>\<open>dataFromApi.contactPoints[0]\<close> throws when \<^verbatim>\<open>contactPoints\<close> is.
\<close>

definition prepareOrganizationDataForSave :: "obj \<Rightarrow> jsval + prepared" where
  "prepareOrganizationDataForSave dataFromApi =
     (let address = getProp dataFromApi ''address'' in
      case member address ''addressCountry'' of Inl e \<Rightarrow> Inl e | Inr country \<Rightarrow>
      case member address ''addressLocality'' of Inl e \<Rightarrow> Inl e | Inr locality \<Rightarrow>
      case member address ''postalCode'' of Inl e \<Rightarrow> Inl e | Inr postal \<Rightarrow>
      case member address ''streetAddress'' of Inl e \<Rightarrow> Inl e | Inr street \<Rightarrow>
      case index0 (getProp dataFromApi ''contactPoints'') of Inl e \<Rightarrow> Inl e | Inr first \<Rightarrow>
        Inr \<lparr> organization =
                AList.update ''streetAddress'' street
                  (AList.update ''postalCode'' postal
                    (AList.update ''addressLocality'' locality
                      (AList.update ''addressCountry'' (orNull country)
                        (omit dataFromApi [''address'', ''contactPoints''])))),
              contactPoint = first,
              contactPoints = getProp dataFromApi ''contactPoints'' \<rparr>)"

section \<open>The deletion set\<close>

text \<open>
  \<^verbatim>\<open>getIdsToDelete(idsInDb, objectsFromApi)\<close>: the identifiers of the payload entries
  are read (a TypeError on a \<^verbatim>\<open>null\<close> entry), the falsy ones are filtered out, and the
  ids of the database that are not among the rest are returned.
\<close>

fun identifiers :: "jsval list \<Rightarrow> jsval + jsval list" where
  "identifiers [] = Inr []"
| "identifiers (ob # obs) =
     (case member ob ''identifier'' of
        Inl e \<Rightarrow> Inl e
      | Inr i \<Rightarrow> (case identifiers obs of Inl e \<Rightarrow> Inl e | Inr rest \<Rightarrow> Inr (i # rest)))"

definition getIdsToDelete :: "jsval list \<Rightarrow> jsval list \<Rightarrow> jsval + jsval list" where
  "getIdsToDelete idsInDb objectsFromApi =
     (case identifiers objectsFromApi of
        Inl e \<Rightarrow> Inl e
      | Inr idents \<Rightarrow>
          (let idsApi = filter truthy idents
           in Inr (filter (\<lambda>id. \<not> includes_js idsApi id) idsInDb)))"

text \<open>
  The diff as the specification words it (\<open>computeDeletionSet\<close>): the ids of the database
  that no \<^verbatim>\<open>identifier\<close> field of a payload entry references.
\<close>

definition computeDeletionSet :: "jsval list \<Rightarrow> obj list \<Rightarrow> jsval list" where
  "computeDeletionSet idsInDb payloadEntries =
     filter (\<lambda>id. id \<notin> set (map (\<lambda>e. getProp e ''identifier'') payloadEntries)) idsInDb"

text \<open>
  The round trip of the specification, \<^verbatim>\<open>toApiShape(toStorageShape(x).organization)\<close>.
\<close>

definition roundTrip :: "obj \<Rightarrow> jsval + obj" where
  "roundTrip x =
     (case prepareOrganizationDataForSave x of
        Inl e \<Rightarrow> Inl e
      | Inr p \<Rightarrow> Inr (formatOrganizationForAPI (organization p)))"

section \<open>The statements of the aggregate writer\<close>

text \<open>
  The writer builds its statements with the query builder of the database client and runs
  them afterwards (a builder runs when \<^verbatim>\<open>Promise.all\<close> or \<^verbatim>\<open>.then\<close> asks for its
  result). A statement is kept as data: the table, and what
  \<^verbatim>\<open>.insert(row)\<close>, \<^verbatim>\<open>.where({ id }).update(columns)\<close> and
  \<^verbatim>\<open>.where({ id }).del()\<close> were given.
\<close>

datatype tbl = Organization | Contact_point

datatype stmt =
    Insert tbl obj
  | Update tbl jsval obj
  | Delete tbl jsval

text \<open>The receiver of \<^verbatim>\<open>.reduce\<close>: an array, a TypeError otherwise (no such method).\<close>

fun elements :: "jsval \<Rightarrow> jsval + jsval list" where
  "elements (JArr xs) = Inr xs"
| "elements v = Inl TypeError"

text \<open>\<^verbatim>\<open>xs.reduce(f, acc)\<close> with a callback that may throw.\<close>

fun reduce :: "('a \<Rightarrow> 'b \<Rightarrow> jsval + 'a) \<Rightarrow> 'b list \<Rightarrow> 'a \<Rightarrow> jsval + 'a" where
  "reduce f [] acc = Inr acc"
| "reduce f (x # xs) acc = (case f acc x of Inl e \<Rightarrow> Inl e | Inr acc' \<Rightarrow> reduce f xs acc')"

text \<open>The callback of the reduce of \<^verbatim>\<open>createOrganization\<close>.\<close>

definition contactToCreate :: "jsval \<Rightarrow> stmt list \<Rightarrow> jsval \<Rightarrow> jsval + stmt list" where
  "contactToCreate organizationId acc contact =
     Inr (acc @ [Insert Contact_point
                   (AList.update ''organizationId'' organizationId (spread contact))])"

definition contactsToCreate :: "jsval \<Rightarrow> jsval \<Rightarrow> jsval + stmt list" where
  "contactsToCreate organizationId payloadContacts =
     (case elements payloadContacts of
        Inl e \<Rightarrow> Inl e
      | Inr cps \<Rightarrow> reduce (contactToCreate organizationId) cps [])"

text \<open>
  The callback of the reduce of \<^verbatim>\<open>updateOrganization\<close>: an update in place for a
  truthy identifier of the snapshot, an insert for a falsy identifier, nothing otherwise.
\<close>

definition contactUpdate ::
  "jsval \<Rightarrow> jsval list \<Rightarrow> stmt list \<Rightarrow> jsval \<Rightarrow> jsval + stmt list" where
  "contactUpdate organizationId existingContactIds acc contact =
     (case member contact ''identifier'' of
        Inl e \<Rightarrow> Inl e
      | Inr identifier \<Rightarrow>
          (let acc1 =
                 (if truthy identifier \<and> includes_js existingContactIds identifier
                  then acc @ [Update Contact_point identifier
                                (omit (spread contact) [''identifier''])]
                  else acc);
               acc2 =
                 (if \<not> truthy identifier
                  then acc1 @ [Insert Contact_point
                                 (AList.update ''organizationId'' organizationId (spread contact))]
                  else acc1)
           in Inr acc2))"

text \<open>
  The statements \<^verbatim>\<open>updateOrganization\<close> hands to \<^verbatim>\<open>Promise.all\<close>, from the
  snapshot of the ids: the reduce over the payload, then one deletion for each id of
  \<^verbatim>\<open>getIdsToDelete\<close>.
\<close>

definition contactUpdates :: "jsval \<Rightarrow> jsval list \<Rightarrow> jsval \<Rightarrow> jsval + stmt list" where
  "contactUpdates organizationId existingContactIds payloadContacts =
     (case elements payloadContacts of
        Inl e \<Rightarrow> Inl e
      | Inr cps \<Rightarrow>
          (case reduce (contactUpdate organizationId existingContactIds) cps [] of
             Inl e \<Rightarrow> Inl e
           | Inr updates \<Rightarrow>
               (case getIdsToDelete existingContactIds cps of
                  Inl e \<Rightarrow> Inl e
                | Inr idsToDelete \<Rightarrow> Inr (updates @ map (Delete Contact_point) idsToDelete))))"

section \<open>The persistence engine\<close>

text \<open>
  The relational engine behind the client is outside the repository. Its tables are lists
  of rows in insertion order; a row is an object of its columns. Columns are named as the
  client returns them (camelCase): the client's identifier mapping makes
  \<^verbatim>\<open>organization_id\<close> and \<^verbatim>\<open>organizationId\<close> one column. Constraints of the schema
  are not part of the semantics: a statement the engine refuses is a fault (see below).

  The database orders text by its collation, which is chosen when the database is created
  and which the repository does not set. A collation is given by its sort key: two texts
  compare as their keys do, character code by character code (the key of the collation
  \<^verbatim>\<open>C\<close> is the text itself).
\<close>

type_synonym collation = "string \<Rightarrow> string"

record db =
  organizations :: "obj list"
  contact_points :: "obj list"
  collation :: collation

fun rows :: "tbl \<Rightarrow> db \<Rightarrow> obj list" where
  "rows Organization d = organizations d"
| "rows Contact_point d = contact_points d"

fun setRows :: "tbl \<Rightarrow> obj list \<Rightarrow> db \<Rightarrow> db" where
  "setRows Organization rs d = d\<lparr>organizations := rs\<rparr>"
| "setRows Contact_point rs d = d\<lparr>contact_points := rs\<rparr>"

text \<open>The value of a column: NULL where the row has none.\<close>

definition col :: "obj \<Rightarrow> string \<Rightarrow> jsval" where
  "col r k = (case getProp r k of JUndefined \<Rightarrow> JNull | v \<Rightarrow> v)"

text \<open>A generated id: not used in the table yet (here, above every integer id).\<close>

definition freshId :: "obj list \<Rightarrow> jsval" where
  "freshId rs =
     JNum (1 + foldr (\<lambda>r m. case col r ''id'' of JNum n \<Rightarrow> max n m | _ \<Rightarrow> m) rs 0)"

text \<open>\<^verbatim>\<open>UPDATE ... SET\<close>: the client leaves out the columns given as \<^verbatim>\<open>undefined\<close>.\<close>

definition assign :: "obj \<Rightarrow> obj \<Rightarrow> obj" where
  "assign cols r = fold (\<lambda>p acc. if snd p = JUndefined then acc else AList.update (fst p) (snd p) acc) cols r"

definition countRows :: "obj list \<Rightarrow> jsval \<Rightarrow> int" where
  "countRows rs i = int (length (filter (\<lambda>r. col r ''id'' = i) rs))"

text \<open>
  A statement acts on the rows of its table. An insert stores the row with a generated id
  unless the row brings its own; an update assigns the columns to the rows with the id; a
  deletion removes them. Its result is the id of the inserted row, as
  \<^verbatim>\<open>.returning('id')\<close> gives it, or the number of rows with the id.
\<close>

fun tableOf :: "stmt \<Rightarrow> tbl" where
  "tableOf (Insert t r) = t"
| "tableOf (Update t i cols) = t"
| "tableOf (Delete t i) = t"

definition storedRow :: "obj list \<Rightarrow> obj \<Rightarrow> obj" where
  "storedRow rs r =
     (if nullish (getProp r ''id'') then AList.update ''id'' (freshId rs) r else r)"

fun execRows :: "stmt \<Rightarrow> obj list \<Rightarrow> obj list" where
  "execRows (Insert t r) rs = rs @ [storedRow rs r]"
| "execRows (Update t i cols) rs = map (\<lambda>r. if col r ''id'' = i then assign cols r else r) rs"
| "execRows (Delete t i) rs = filter (\<lambda>r. col r ''id'' \<noteq> i) rs"

fun resultOf :: "stmt \<Rightarrow> obj list \<Rightarrow> jsval" where
  "resultOf (Insert t r) rs = JArr [col (storedRow rs r) ''id'']"
| "resultOf (Update t i cols) rs = JNum (countRows rs i)"
| "resultOf (Delete t i) rs = JNum (countRows rs i)"

definition exec :: "stmt \<Rightarrow> db \<Rightarrow> db \<times> jsval" where
  "exec q d =
     (setRows (tableOf q) (execRows q (rows (tableOf q) d)) d, resultOf q (rows (tableOf q) d))"

text \<open>
  Faults. Any operation of the engine can fail (a constraint, the connection, an aborted
  transaction): a fault plan says, for an operation on a database, whether it fails and
  with which error. The facade's operations are defined for every fault plan.
\<close>

datatype operation =
    Exec stmt
  | SelectContactIds jsval
  | SelectOrganization jsval
  | SelectOrganizations
  | Commit

type_synonym faults = "operation \<Rightarrow> db \<Rightarrow> jsval option"

definition noFaults :: faults where
  "noFaults = (\<lambda>oper d. None)"

section \<open>Promises and transactions\<close>

text \<open>
  An asynchronous computation runs on a session of the client: the committed database,
  the working copy of the open transaction, and how the transaction was settled
  (\<^verbatim>\<open>trx.commit(value)\<close> resolves the promise of \<^verbatim>\<open>client.transaction\<close> with the
  value, \<^verbatim>\<open>trx.rollback(error)\<close> rejects it with the error). A promise resolves, is
  rejected, or stays pending for ever.
\<close>

record session =
  committed :: db
  working :: db
  settled :: "(jsval + jsval) option"

datatype 'a outcome = Resolved 'a | Rejected jsval | Pending

type_synonym 'a promise = "session \<Rightarrow> 'a outcome \<times> session"

definition resolve :: "'a \<Rightarrow> 'a promise" where
  "resolve v = (\<lambda>s. (Resolved v, s))"

definition reject :: "jsval \<Rightarrow> 'a promise" where
  "reject e = (\<lambda>s. (Rejected e, s))"

text \<open>\<^verbatim>\<open>p.then(f)\<close> (and \<^verbatim>\<open>await\<close>) and \<^verbatim>\<open>p.catch(h)\<close>.\<close>

definition andThen :: "'a promise \<Rightarrow> ('a \<Rightarrow> 'b promise) \<Rightarrow> 'b promise" where
  "andThen p f =
     (\<lambda>s. case p s of
            (Resolved v, s') \<Rightarrow> f v s'
          | (Rejected e, s') \<Rightarrow> (Rejected e, s')
          | (Pending, s') \<Rightarrow> (Pending, s'))"

definition orCatch :: "'a promise \<Rightarrow> (jsval \<Rightarrow> 'a promise) \<Rightarrow> 'a promise" where
  "orCatch p h =
     (\<lambda>s. case p s of
            (Resolved v, s') \<Rightarrow> (Resolved v, s')
          | (Rejected e, s') \<Rightarrow> h e s'
          | (Pending, s') \<Rightarrow> (Pending, s'))"

text \<open>
  \<^verbatim>\<open>Promise.all\<close> over statements of one connection: they run in the order of the array,
  and the first rejection rejects the whole.
\<close>

fun promiseAll :: "jsval promise list \<Rightarrow> jsval promise" where
  "promiseAll [] = resolve (JArr [])"
| "promiseAll (p # ps) =
     andThen p (\<lambda>v. andThen (promiseAll ps)
       (\<lambda>vs. resolve (case vs of JArr xs \<Rightarrow> JArr (v # xs) | w \<Rightarrow> w)))"

text \<open>A statement with \<^verbatim>\<open>.transacting(trx)\<close> runs on the working copy; without, on the
  committed database.\<close>

definition transacting :: "faults \<Rightarrow> stmt \<Rightarrow> jsval promise" where
  "transacting F q =
     (\<lambda>s. case F (Exec q) (working s) of
            Some e \<Rightarrow> (Rejected e, s)
          | None \<Rightarrow> (Resolved (snd (exec q (working s))), s\<lparr>working := fst (exec q (working s))\<rparr>))"

definition autocommit :: "faults \<Rightarrow> stmt \<Rightarrow> jsval promise" where
  "autocommit F q =
     (\<lambda>s. case F (Exec q) (committed s) of
            Some e \<Rightarrow> (Rejected e, s)
          | None \<Rightarrow> (Resolved (snd (exec q (committed s))), s\<lparr>committed := fst (exec q (committed s))\<rparr>))"

definition select :: "faults \<Rightarrow> operation \<Rightarrow> (db \<Rightarrow> 'a) \<Rightarrow> 'a promise" where
  "select F oper q =
     (\<lambda>s. case F oper (committed s) of
            Some e \<Rightarrow> (Rejected e, s)
          | None \<Rightarrow> (Resolved (q (committed s)), s))"

definition commit :: "faults \<Rightarrow> jsval \<Rightarrow> jsval promise" where
  "commit F v =
     (\<lambda>s. case F Commit (working s) of
            Some e \<Rightarrow> (Rejected e, s)
          | None \<Rightarrow> (Resolved v, s\<lparr>committed := working s, settled := Some (Inr v)\<rparr>))"

definition rollback :: "jsval \<Rightarrow> jsval promise" where
  "rollback e = (\<lambda>s. (Resolved e, s\<lparr>working := committed s, settled := Some (Inl e)\<rparr>))"

text \<open>
  \<^verbatim>\<open>client.transaction(handler)\<close> with a handler that returns nothing (as both handlers
  of the repository do): the transaction opens on the committed database, the handler's
  chain runs, and the promise is settled by the commit or the rollback the chain called;
  what the chain itself resolved to is lost.
\<close>

definition transaction :: "jsval promise \<Rightarrow> jsval promise" where
  "transaction handler =
     (\<lambda>s. let s' = snd (handler (s\<lparr>working := committed s, settled := None\<rparr>))
          in case settled s' of
               None \<Rightarrow> (Pending, s')
             | Some (Inr v) \<Rightarrow> (Resolved v, s')
             | Some (Inl e) \<Rightarrow> (Rejected e, s'))"

text \<open>A facade operation on a database: its result and the database afterwards.\<close>

definition run :: "'a promise \<Rightarrow> db \<Rightarrow> 'a outcome \<times> db" where
  "run p d =
     (let r = p \<lparr>committed = d, working = d, settled = None\<rparr> in (fst r, committed (snd r)))"

definition errorResult :: "jsval \<Rightarrow> jsval" where
  "errorResult error = JObj [(''error'', error)]"

section \<open>The read queries\<close>

text \<open>
  Modelled from the spec: the column naming of the database client's configuration, which
  is not in src. A column written in snake_case in a query
  (\<^verbatim>\<open>address_locality\<close>, \<^verbatim>\<open>contact_type\<close>, \<^verbatim>\<open>organization_id\<close>) is the column the
  client returns in camelCase, under which the rows are kept here (\<open>address fields stored
  flat, exposed nested\<close>).
\<close>

definition upperChar :: "char \<Rightarrow> char" where
  "upperChar c =
     (let n = (of_char c :: nat) in if 97 \<le> n \<and> n \<le> 122 then char_of (n - 32) else c)"

definition lowerChar :: "char \<Rightarrow> char" where
  "lowerChar c =
     (let n = (of_char c :: nat) in if 65 \<le> n \<and> n \<le> 90 then char_of (n + 32) else c)"

fun camelCase :: "string \<Rightarrow> string" where
  "camelCase (c # d # cs) =
     (if c = CHR ''_'' then upperChar d # camelCase cs else c # camelCase (d # cs))"
| "camelCase cs = cs"

text \<open>The string a value becomes in a template literal \<^verbatim>\<open>`${v}`\<close>.\<close>

fun joinComma :: "string list \<Rightarrow> string" where
  "joinComma [] = []"
| "joinComma [s] = s"
| "joinComma (s # t # ss) = s @ '','' @ joinComma (t # ss)"

fun toStr :: "jsval \<Rightarrow> string" where
  "toStr JUndefined = ''undefined''"
| "toStr JNull = ''null''"
| "toStr (JBool b) = (if b then ''true'' else ''false'')"
| "toStr (JNum n) = (if n < 0 then ''-'' @ decimal (nat (- n)) else decimal (nat n))"
| "toStr (JStr s) = s"
| "toStr (JArr xs) = joinComma (map (\<lambda>x. if nullish x then [] else toStr x) xs)"
| "toStr (JObj ps) = ''[object Object]''"

text \<open>
  SQL \<^verbatim>\<open>LIKE\<close>: \<^verbatim>\<open>%\<close> matches any run of characters, \<^verbatim>\<open>_\<close> any one character, the
  backslash makes the next character of the pattern literal (a pattern that ends in a lone
  backslash is refused by the engine: a fault), any other character matches itself, case
  included.
\<close>

fun like :: "string \<Rightarrow> string \<Rightarrow> bool" where
  "like [] s = (s = [])"
| "like (p # ps) s =
     (if p = CHR ''%'' then
        (like ps s \<or> (case s of [] \<Rightarrow> False | c # cs \<Rightarrow> like (p # ps) cs))
      else if p = CHR ''_'' then
        (case s of [] \<Rightarrow> False | c # cs \<Rightarrow> like ps cs)
      else if p = CHR 0x5C then
        (case ps of
           [] \<Rightarrow> False
         | q # qs \<Rightarrow> (case s of [] \<Rightarrow> False | c # cs \<Rightarrow> c = q \<and> like qs cs))
      else
        (case s of [] \<Rightarrow> False | c # cs \<Rightarrow> c = p \<and> like ps cs))"

text \<open>\<^verbatim>\<open>column LIKE pattern\<close> on a text column: never true on NULL.\<close>

definition whereLike :: "obj \<Rightarrow> string \<Rightarrow> string \<Rightarrow> bool" where
  "whereLike r column pattern =
     (case col r (camelCase column) of JStr s \<Rightarrow> like pattern s | _ \<Rightarrow> False)"

text \<open>A string without the metacharacters of \<^verbatim>\<open>LIKE\<close> (\<^verbatim>\<open>%\<close>, \<^verbatim>\<open>_\<close>, backslash).\<close>

definition plain :: "string \<Rightarrow> bool" where
  "plain s = list_all (\<lambda>c. c \<noteq> CHR ''%'' \<and> c \<noteq> CHR ''_'' \<and> c \<noteq> CHR 0x5C) s"

text \<open>\<^verbatim>\<open>.where({ k: v, ... })\<close>: every column equals its value (\<^verbatim>\<open>IS NULL\<close> for null).\<close>

definition whereEquals :: "obj \<Rightarrow> obj \<Rightarrow> bool" where
  "whereEquals r conditions = list_all (\<lambda>p. col r (camelCase (fst p)) = snd p) conditions"

text \<open>
  The computed column of both read queries:
  \<^verbatim>\<open>(SELECT array_to_json(array_agg(jsonb_build_object(...) ORDER BY contact_point.contact_type))
  FROM contact_point WHERE contact_point.organization_id = organization.id)\<close>.
  The aggregate over no row is NULL. A \<^verbatim>\<open>jsonb\<close> object keeps its keys by length, then
  by character code, whatever the order of the arguments of \<^verbatim>\<open>jsonb_build_object\<close>:
  \<^verbatim>\<open>name, email, telephone, identifier, contactType\<close>, and this is the order of the
  properties of the object the client returns. \<^verbatim>\<open>contact_type\<close> is a text column:
  \<^verbatim>\<open>ORDER BY\<close> follows the collation of the database, and NULL sorts last.
\<close>

definition contactPointJson :: "obj \<Rightarrow> jsval" where
  "contactPointJson c =
     JObj [(''name'', col c ''name''),
           (''email'', col c ''email''),
           (''telephone'', col c ''telephone''),
           (''identifier'', col c ''id''),
           (''contactType'', col c (camelCase ''contact_type''))]"

definition contactTypeKey :: "collation \<Rightarrow> obj \<Rightarrow> bool \<times> string" where
  "contactTypeKey L c =
     (case col c (camelCase ''contact_type'') of JStr s \<Rightarrow> (False, L s) | _ \<Rightarrow> (True, []))"

definition contactPointsOf :: "db \<Rightarrow> obj \<Rightarrow> obj list" where
  "contactPointsOf d org =
     filter (\<lambda>c. col c (camelCase ''organization_id'') \<noteq> JNull
                 \<and> col c (camelCase ''organization_id'') = col org ''id'')
       (contact_points d)"

definition contactPointsColumn :: "db \<Rightarrow> obj \<Rightarrow> jsval" where
  "contactPointsColumn d org =
     (let cs = contactPointsOf d org
      in if cs = [] then JNull else JArr (map contactPointJson (sort_key (contactTypeKey (collation d)) cs)))"

text \<open>\<^verbatim>\<open>organization.*\<close> and the computed column \<^verbatim>\<open>contact_points\<close>.\<close>

definition selectedRow :: "db \<Rightarrow> obj \<Rightarrow> obj" where
  "selectedRow d org =
     AList.update (camelCase ''contact_points'') (contactPointsColumn d org) org"

text \<open>\<^verbatim>\<open>getOrganizationByIdQuery\<close>: \<^verbatim>\<open>.first(...)\<close> gives the first row, or
  \<^verbatim>\<open>undefined\<close>.\<close>

definition getOrganizationByIdQuery :: "jsval \<Rightarrow> db \<Rightarrow> jsval" where
  "getOrganizationByIdQuery organizationId d =
     (case filter (\<lambda>r. col r ''id'' = organizationId) (organizations d) of
        [] \<Rightarrow> JUndefined
      | r # rs \<Rightarrow> JObj (selectedRow d r))"

text \<open>
  \<^verbatim>\<open>query.orderBy(...sort)\<close> when \<^verbatim>\<open>sort && sort.length\<close>, for the array the
  sort sanitizer returns: the first element is the column, the second the direction
  (descending for \<^verbatim>\<open>desc\<close> in any case, ascending otherwise). Numbers are ordered by
  value, text by the collation of the database, NULL last when ascending.
\<close>

definition sqlKey :: "collation \<Rightarrow> jsval \<Rightarrow> nat \<times> int \<times> string" where
  "sqlKey L v =
     (case v of
        JNum n \<Rightarrow> (0, n, [])
      | JStr s \<Rightarrow> (1, 0, L s)
      | JBool b \<Rightarrow> (2, if b then 1 else 0, [])
      | _ \<Rightarrow> (3, 0, []))"

definition descending :: "jsval list \<Rightarrow> bool" where
  "descending directions =
     (case directions of JStr s # ds \<Rightarrow> map lowerChar s = ''desc'' | _ \<Rightarrow> False)"

definition orderBy :: "collation \<Rightarrow> jsval list \<Rightarrow> obj list \<Rightarrow> obj list" where
  "orderBy L sorting rs =
     (case sorting of
        [] \<Rightarrow> rs
      | column # directions \<Rightarrow>
          (let sorted_rows = sort_key (\<lambda>r. sqlKey L (col r (camelCase (toStr column)))) rs
           in if descending directions then rev sorted_rows else sorted_rows))"

text \<open>
  \<^verbatim>\<open>getFilteredOrganizationsQuery\<close>: the rows of \<^verbatim>\<open>organization\<close> that pass
  \<^verbatim>\<open>.where(restFilters)\<close> and the three \<^verbatim>\<open>LIKE\<close> conditions, each added only for a
  truthy filter, with the computed column, ordered.
\<close>

definition filterMatches :: "obj \<Rightarrow> obj \<Rightarrow> bool" where
  "filterMatches filters r =
     (let name = getProp filters ''name'';
          address_locality = getProp filters ''address_locality'';
          postal_code = getProp filters ''postal_code'';
          restFilters = omit filters [''name'', ''address_locality'', ''postal_code'']
      in whereEquals r restFilters
         \<and> (if truthy name then whereLike r ''name'' (''%'' @ toStr name @ ''%'') else True)
         \<and> (if truthy address_locality
             then whereLike r ''address_locality'' (toStr address_locality @ ''%'') else True)
         \<and> (if truthy postal_code
             then whereLike r ''postal_code'' (toStr postal_code @ ''%'') else True))"

definition getFilteredOrganizationsQuery :: "obj \<Rightarrow> jsval list \<Rightarrow> db \<Rightarrow> obj list" where
  "getFilteredOrganizationsQuery filters sorting d =
     orderBy (collation d) sorting
       (map (selectedRow d) (filter (filterMatches filters) (organizations d)))"

text \<open>The snapshot of \<^verbatim>\<open>updateOrganization\<close>:
  \<^verbatim>\<open>client('contact_point').select('id').where({ organization_id: organizationId })\<close>
  and \<^verbatim>\<open>contacts.map((contact) => contact.id)\<close>.\<close>

definition selectContactIds :: "jsval \<Rightarrow> db \<Rightarrow> jsval list" where
  "selectContactIds organizationId d =
     map (\<lambda>contact. col contact ''id'')
       (filter (\<lambda>c. col c (camelCase ''organization_id'') = organizationId) (contact_points d))"

section \<open>The repository facade\<close>

definition OrganizationFilterableFields :: "string list" where
  "OrganizationFilterableFields = [''name'', ''address_locality'', ''postal_code'']"

definition OrganizationSortableFields :: "string list" where
  "OrganizationSortableFields = [''name'', ''id'', ''address_locality'', ''postal_code'']"

text \<open>
  The sanitizers of \<^verbatim>\<open>../toolbox/sanitizers\<close> and the pagination plug-in of the client
  are not in src: they are parameters. \<open>paginationMeta perPage currentPage total\<close> is the
  \<^verbatim>\<open>pagination\<close> object the plug-in returns with the page.
\<close>

record collaborators =
  filtersSanitizer :: "jsval \<Rightarrow> string list \<Rightarrow> obj"
  sortSanitizer :: "jsval \<Rightarrow> string list \<Rightarrow> jsval list"
  paginationSanitizer :: "jsval \<Rightarrow> nat \<times> nat"
  paginationMeta :: "nat \<Rightarrow> nat \<Rightarrow> nat \<Rightarrow> jsval"

definition paginate :: "collaborators \<Rightarrow> nat \<times> nat \<Rightarrow> obj list \<Rightarrow> obj list \<times> jsval" where
  "paginate K page rs =
     (take (fst page) (drop ((snd page - 1) * fst page) rs),
      paginationMeta K (fst page) (snd page) (length rs))"

definition getOrganizationPaginatedList ::
  "collaborators \<Rightarrow> faults \<Rightarrow> jsval \<Rightarrow> jsval \<Rightarrow> jsval \<Rightarrow> jsval promise" where
  "getOrganizationPaginatedList K F filters sorting pagination =
     andThen
       (select F SelectOrganizations
          (\<lambda>d. paginate K (paginationSanitizer K pagination)
                 (getFilteredOrganizationsQuery
                    (filtersSanitizer K filters OrganizationFilterableFields)
                    (sortSanitizer K sorting OrganizationSortableFields) d)))
       (\<lambda>result. resolve
          (JObj [(''organizations'',
                    JArr (map (\<lambda>r. JObj (formatOrganizationForAPI r)) (fst result))),
                 (''pagination'', snd result)]))"

text \<open>The array pattern \<^verbatim>\<open>([organizationId]) => ...\<close>.\<close>

fun firstOf :: "jsval \<Rightarrow> jsval + jsval" where
  "firstOf (JArr []) = Inr JUndefined"
| "firstOf (JArr (x # xs)) = Inr x"
| "firstOf (JStr []) = Inr JUndefined"
| "firstOf (JStr (c # cs)) = Inr (JStr [c])"
| "firstOf v = Inl TypeError"

definition readOrganization :: "faults \<Rightarrow> jsval \<Rightarrow> jsval promise" where
  "readOrganization F organizationId =
     andThen
       (select F (SelectOrganization organizationId) (getOrganizationByIdQuery organizationId))
       (\<lambda>row. resolve (JObj (formatOrganizationForAPI (spread row))))"

definition createTransaction :: "faults \<Rightarrow> prepared \<Rightarrow> jsval promise" where
  "createTransaction F p =
     transaction
       (orCatch
          (andThen
             (andThen (transacting F (Insert Organization (organization p)))
                (\<lambda>returned.
                   case firstOf returned of
                     Inl e \<Rightarrow> reject e
                   | Inr organizationId \<Rightarrow>
                       (case contactsToCreate organizationId (contactPoints p) of
                          Inl e \<Rightarrow> reject e
                        | Inr statements \<Rightarrow>
                            andThen (promiseAll (map (transacting F) statements))
                              (\<lambda>done. resolve organizationId))))
             (commit F))
          rollback)"

definition createOrganization :: "faults \<Rightarrow> obj \<Rightarrow> jsval promise" where
  "createOrganization F apiData =
     (case prepareOrganizationDataForSave apiData of
        Inl e \<Rightarrow> reject e
      | Inr p \<Rightarrow>
          orCatch
            (andThen (createTransaction F p)
               (\<lambda>newOrganizationId. readOrganization F newOrganizationId))
            (\<lambda>error. resolve (errorResult error)))"

definition getOrganization :: "faults \<Rightarrow> jsval \<Rightarrow> jsval promise" where
  "getOrganization F organizationId =
     orCatch (readOrganization F organizationId) (\<lambda>error. resolve (errorResult error))"

definition deleteOrganization :: "faults \<Rightarrow> jsval \<Rightarrow> jsval promise" where
  "deleteOrganization F organizationId =
     orCatch
       (andThen (autocommit F (Delete Organization organizationId))
          (\<lambda>nbDeletion.
             resolve (if truthy nbDeletion then JObj [(''id'', organizationId)] else JObj [])))
       (\<lambda>error. resolve (errorResult error))"

definition updateTransaction :: "faults \<Rightarrow> jsval \<Rightarrow> prepared \<Rightarrow> jsval promise" where
  "updateTransaction F organizationId p =
     transaction
       (orCatch
          (andThen
             (andThen (transacting F (Update Organization organizationId (organization p)))
                (\<lambda>updated.
                   andThen
                     (select F (SelectContactIds organizationId)
                        (selectContactIds organizationId))
                     (\<lambda>existingContactIds.
                        case contactUpdates organizationId existingContactIds (contactPoints p) of
                          Inl e \<Rightarrow> reject e
                        | Inr statements \<Rightarrow> promiseAll (map (transacting F) statements))))
             (commit F))
          rollback)"

text \<open>
  \<^verbatim>\<open>updateOrganization\<close>: the \<^verbatim>\<open>try\<close> block awaits the transaction; its
  \<^verbatim>\<open>catch\<close> returns the error result; otherwise the aggregate is read again.
\<close>

definition updateOrganization :: "faults \<Rightarrow> jsval \<Rightarrow> obj \<Rightarrow> jsval promise" where
  "updateOrganization F organizationId apiData =
     (case prepareOrganizationDataForSave apiData of
        Inl e \<Rightarrow> reject e
      | Inr p \<Rightarrow>
          andThen
            (orCatch
               (andThen (updateTransaction F organizationId p) (\<lambda>awaited. resolve None))
               (\<lambda>error. resolve (Some (errorResult error))))
            (\<lambda>returned.
               case returned of
                 Some r \<Rightarrow> resolve r
               | None \<Rightarrow>
                   orCatch (readOrganization F organizationId)
                     (\<lambda>error. resolve (errorResult error))))"

section \<open>The transactions, step by step\<close>

text \<open>
  The write of an aggregate as the specification lists it: the steps in their order on one
  database, the first failure ending the run. \<open>createSteps\<close>: insert the organization,
  insert every contact point stamped with the new id, commit. \<open>updateSteps\<close>: update the
  organization, read the snapshot of the contact ids, run the updates, inserts and
  deletions, commit. The result is the error of the step that failed, or the database
  to commit (with the new id).
\<close>

fun runAll :: "faults \<Rightarrow> stmt list \<Rightarrow> db \<Rightarrow> jsval + db" where
  "runAll F [] w = Inr w"
| "runAll F (q # qs) w =
     (case F (Exec q) w of Some e \<Rightarrow> Inl e | None \<Rightarrow> runAll F qs (fst (exec q w)))"

definition createSteps :: "faults \<Rightarrow> prepared \<Rightarrow> db \<Rightarrow> jsval + (db \<times> jsval)" where
  "createSteps F p d =
     (case F (Exec (Insert Organization (organization p))) d of
        Some e \<Rightarrow> Inl e
      | None \<Rightarrow>
          (case firstOf (snd (exec (Insert Organization (organization p)) d)) of
             Inl e \<Rightarrow> Inl e
           | Inr organizationId \<Rightarrow>
               (case contactsToCreate organizationId (contactPoints p) of
                  Inl e \<Rightarrow> Inl e
                | Inr statements \<Rightarrow>
                    (case runAll F statements (fst (exec (Insert Organization (organization p)) d)) of
                       Inl e \<Rightarrow> Inl e
                     | Inr d2 \<Rightarrow>
                         (case F Commit d2 of
                            Some e \<Rightarrow> Inl e
                          | None \<Rightarrow> Inr (d2, organizationId))))))"

definition updateSteps :: "faults \<Rightarrow> jsval \<Rightarrow> prepared \<Rightarrow> db \<Rightarrow> jsval + db" where
  "updateSteps F organizationId p d =
     (case F (Exec (Update Organization organizationId (organization p))) d of
        Some e \<Rightarrow> Inl e
      | None \<Rightarrow>
          (case F (SelectContactIds organizationId) d of
             Some e \<Rightarrow> Inl e
           | None \<Rightarrow>
               (case contactUpdates organizationId (selectContactIds organizationId d) (contactPoints p) of
                  Inl e \<Rightarrow> Inl e
                | Inr statements \<Rightarrow>
                    (case runAll F statements
                            (fst (exec (Update Organization organizationId (organization p)) d)) of
                       Inl e \<Rightarrow> Inl e
                     | Inr d2 \<Rightarrow>
                         (case F Commit d2 of Some e \<Rightarrow> Inl e | None \<Rightarrow> Inr d2)))))"

text \<open>
  What the facade returns after a write or for a read: the aggregate read again in API
  shape, or the error result when the read fails.
\<close>

definition readResult :: "faults \<Rightarrow> jsval \<Rightarrow> db \<Rightarrow> jsval outcome" where
  "readResult F organizationId d =
     (case F (SelectOrganization organizationId) d of
        Some e \<Rightarrow> Resolved (errorResult e)
      | None \<Rightarrow>
          Resolved (JObj (formatOrganizationForAPI (spread (getOrganizationByIdQuery organizationId d)))))"

section \<open>Example data\<close>

text \<open>
  The collation \<^verbatim>\<open>C\<close>, an organization with a phone and an email contact point, the
  update payload of the reconciliation scenario, two fault plans and a set of
  collaborators.
\<close>

definition byCode :: collation where
  "byCode = (\<lambda>s. s)"

definition exampleDb :: db where
  "exampleDb =
     \<lparr>organizations = [[(''id'', JNum 7), (''name'', JStr ''Acme'')]],
      contact_points =
        [[(''id'', JNum 1), (''contactType'', JStr ''phone''), (''organizationId'', JNum 7)],
         [(''id'', JNum 2), (''contactType'', JStr ''email''), (''organizationId'', JNum 7)]],
      collation = byCode\<rparr>"

definition examplePayload :: obj where
  "examplePayload =
     [(''name'', JStr ''Acme''),
      (''address'', JObj [(''addressCountry'', JStr ''FR''), (''addressLocality'', JStr ''Caen''),
                         (''postalCode'', JStr ''14000''), (''streetAddress'', JStr ''1 quai'')]),
      (''contactPoints'',
         JArr [JObj [(''identifier'', JNum 1), (''contactType'', JStr ''phone''),
                     (''email'', JStr ''new@x.com'')],
               JObj [(''contactType'', JStr ''fax''), (''email'', JStr ''y@x.com'')]])]"

definition contactInsertFails :: faults where
  "contactInsertFails =
     (\<lambda>oper d. case oper of
                 Exec (Insert Contact_point r) \<Rightarrow> Some (JStr ''insert failed'')
               | _ \<Rightarrow> None)"

definition allFail :: faults where
  "allFail = (\<lambda>oper d. Some (JStr ''connection lost''))"

definition exampleCollaborators :: collaborators where
  "exampleCollaborators =
     \<lparr>filtersSanitizer = (\<lambda>v fields. []),
      sortSanitizer = (\<lambda>v fields. []),
      paginationSanitizer = (\<lambda>v. (10, 1)),
      paginationMeta = (\<lambda>perPage currentPage total. JNull)\<rparr>"

text \<open>
  An organization created with contact points of types phone, email and fax, in that
  order: the payload, what \<^verbatim>\<open>prepareOrganizationDataForSave\<close> makes of it, the
  database after the creation on an empty database, and the row the single-entity query
  reads.
\<close>

definition threeContactsPayload :: obj where
  "threeContactsPayload =
     [(''name'', JStr ''Acme''),
      (''address'', JObj [(''addressCountry'', JStr ''FR''), (''addressLocality'', JStr ''Caen''),
                         (''postalCode'', JStr ''14000''), (''streetAddress'', JStr ''1 quai'')]),
      (''contactPoints'',
         JArr [JObj [(''contactType'', JStr ''phone''), (''telephone'', JStr ''0231'')],
               JObj [(''contactType'', JStr ''email''), (''email'', JStr ''a@x.com'')],
               JObj [(''contactType'', JStr ''fax''), (''telephone'', JStr ''0232'')]])]"

definition threeContactsPrepared :: prepared where
  "threeContactsPrepared =
     \<lparr>organization =
        [(''name'', JStr ''Acme''), (''addressCountry'', JStr ''FR''),
         (''addressLocality'', JStr ''Caen''), (''postalCode'', JStr ''14000''),
         (''streetAddress'', JStr ''1 quai'')],
      contactPoint = JObj [(''contactType'', JStr ''phone''), (''telephone'', JStr ''0231'')],
      contactPoints =
        JArr [JObj [(''contactType'', JStr ''phone''), (''telephone'', JStr ''0231'')],
              JObj [(''contactType'', JStr ''email''), (''email'', JStr ''a@x.com'')],
              JObj [(''contactType'', JStr ''fax''), (''telephone'', JStr ''0232'')]]\<rparr>"

definition threeContactsDb :: db where
  "threeContactsDb =
     \<lparr>organizations =
        [[(''name'', JStr ''Acme''), (''addressCountry'', JStr ''FR''),
          (''addressLocality'', JStr ''Caen''), (''postalCode'', JStr ''14000''),
          (''streetAddress'', JStr ''1 quai''), (''id'', JNum 1)]],
      contact_points =
        [[(''contactType'', JStr ''phone''), (''telephone'', JStr ''0231''),
          (''organizationId'', JNum 1), (''id'', JNum 1)],
         [(''contactType'', JStr ''email''), (''email'', JStr ''a@x.com''),
          (''organizationId'', JNum 1), (''id'', JNum 2)],
         [(''contactType'', JStr ''fax''), (''telephone'', JStr ''0232''),
          (''organizationId'', JNum 1), (''id'', JNum 3)]],
      collation = byCode\<rparr>"








section \<open>The reconciliation, stated\<close>

text \<open>
  The vocabulary of the reconciliation of an organization's contact points against a
  payload. \<open>rowId\<close> is the id of a row and \<open>identifierOf\<close> the \<^verbatim>\<open>identifier\<close> of a
  payload entry; \<open>contactsOf\<close> are the stored contact points of an organization (the rows
  of the snapshot). \<open>updateRow\<close> is a row after the update in place by an entry that
  references it, \<open>updateAll\<close> after those of a whole payload. \<open>newRow\<close> is the row an
  insert of an entry stores, \<open>newRows\<close> the rows of successive inserts.
  \<open>entryStatements\<close> are the statements one entry contributes, \<open>referenced\<close> says
  that an id is the truthy identifier of an entry. A plain entry has distinct property
  names and neither an \<^verbatim>\<open>id\<close> nor an \<^verbatim>\<open>organizationId\<close> property (the properties
  of a contact point in the API are identifier, email, telephone, name and contactType).
\<close>

definition rowId :: "obj \<Rightarrow> jsval" where
  "rowId r = col r ''id''"

definition identifierOf :: "jsval \<Rightarrow> jsval" where
  "identifierOf c = (case member c ''identifier'' of Inl e \<Rightarrow> JUndefined | Inr i \<Rightarrow> i)"

definition contactsOf :: "jsval \<Rightarrow> db \<Rightarrow> obj list" where
  "contactsOf organizationId d =
     filter (\<lambda>c. col c ''organizationId'' = organizationId) (contact_points d)"

definition updateRow :: "jsval \<Rightarrow> obj \<Rightarrow> obj" where
  "updateRow c r =
     (if truthy (identifierOf c) \<and> rowId r = identifierOf c
      then assign (omit (spread c) [''identifier'']) r else r)"

definition updateAll :: "jsval list \<Rightarrow> obj \<Rightarrow> obj" where
  "updateAll cps r = fold updateRow cps r"

definition newRow :: "jsval \<Rightarrow> jsval \<Rightarrow> obj list \<Rightarrow> obj" where
  "newRow organizationId c rs =
     storedRow rs (AList.update ''organizationId'' organizationId (spread c))"

fun newRows :: "jsval \<Rightarrow> jsval list \<Rightarrow> obj list \<Rightarrow> obj list" where
  "newRows organizationId [] rs = []"
| "newRows organizationId (c # cs) rs =
     newRow organizationId c rs # newRows organizationId cs (rs @ [newRow organizationId c rs])"

definition plainEntry :: "jsval \<Rightarrow> bool" where
  "plainEntry c =
     (distinct (map fst (spread c))
      \<and> ''id'' \<notin> fst ` set (spread c) \<and> ''organizationId'' \<notin> fst ` set (spread c))"

definition entryStatements :: "jsval \<Rightarrow> jsval list \<Rightarrow> jsval \<Rightarrow> stmt list" where
  "entryStatements organizationId existingContactIds c =
     (if truthy (identifierOf c)
      then (if includes_js existingContactIds (identifierOf c)
            then [Update Contact_point (identifierOf c) (omit (spread c) [''identifier''])]
            else [])
      else [Insert Contact_point (AList.update ''organizationId'' organizationId (spread c))])"

definition referenced :: "jsval list \<Rightarrow> jsval \<Rightarrow> bool" where
  "referenced cps i = includes_js (filter truthy (map identifierOf cps)) i"

text \<open>
  The entries of a payload that give a statement, for a snapshot of the ids: those with a
  falsy identifier and those whose identifier is in the snapshot.
\<close>

definition accepted :: "jsval list \<Rightarrow> jsval list \<Rightarrow> jsval list" where
  "accepted existingContactIds cps =
     filter (\<lambda>c. \<not> truthy (identifierOf c) \<or> includes_js existingContactIds (identifierOf c)) cps"

text \<open>
  The update payload with an identifier that is not in the snapshot, and the database the
  reconciliation scenario ends in.
\<close>

definition stalePayload :: obj where
  "stalePayload =
     [(''name'', JStr ''Acme''),
      (''address'', JObj [(''addressCountry'', JStr ''FR''), (''addressLocality'', JStr ''Caen''),
                         (''postalCode'', JStr ''14000''), (''streetAddress'', JStr ''1 quai'')]),
      (''contactPoints'',
         JArr [JObj [(''identifier'', JNum 9), (''contactType'', JStr ''fax''),
                     (''email'', JStr ''y@x.com'')]])]"

definition reconciledDb :: db where
  "reconciledDb =
     \<lparr>organizations =
        [[(''id'', JNum 7), (''name'', JStr ''Acme''), (''addressCountry'', JStr ''FR''),
          (''addressLocality'', JStr ''Caen''), (''postalCode'', JStr ''14000''),
          (''streetAddress'', JStr ''1 quai'')]],
      contact_points =
        [[(''id'', JNum 1), (''contactType'', JStr ''phone''), (''organizationId'', JNum 7),
          (''email'', JStr ''new@x.com'')],
         [(''contactType'', JStr ''fax''), (''email'', JStr ''y@x.com''),
          (''organizationId'', JNum 7), (''id'', JNum 3)]],
      collation = byCode\<rparr>"

section \<open>Statements on the tables\<close>

lemma exec_Insert:
  "exec (Insert t r) d =
     (setRows t (rows t d @ [storedRow (rows t d) r]) d, JArr [col (storedRow (rows t d) r) ''id''])"
  by (simp add: exec_def)

lemma exec_Update:
  "exec (Update t i cols) d =
     (setRows t (map (\<lambda>r. if col r ''id'' = i then assign cols r else r) (rows t d)) d,
      JNum (countRows (rows t d) i))"
  by (simp add: exec_def)

lemma exec_Delete:
  "exec (Delete t i) d =
     (setRows t (filter (\<lambda>r. col r ''id'' \<noteq> i) (rows t d)) d, JNum (countRows (rows t d) i))"
  by (simp add: exec_def)

lemmas exec_simps = exec_Insert exec_Update exec_Delete

section \<open>Properties of the deletion set\<close>

lemma identifiers_objects:
  "identifiers (map JObj es) = Inr (map (\<lambda>e. getProp e ''identifier'') es)"
  by (induction es) simp_all

lemma includes_js_iff: "includes_js xs v \<longleftrightarrow> scalar v \<and> v \<in> set xs"
  by (auto simp: includes_js_def sameValueZero_def list_ex_iff)

text \<open>
  C2 (as stated). The claim reads the diff as the pure set difference between the ids of
  the database and the \<^verbatim>\<open>identifier\<close> fields of the payload. The code first drops the
  falsy identifiers (\<^verbatim>\<open>.filter((id) => id)\<close>): with the id \<open>0\<close> in the database and
  a payload entry whose identifier is \<open>0\<close>, the set difference is empty and the code
  returns the id for deletion.
\<close>

theorem getIdsToDelete_falsy_id_counterexample:
  "getIdsToDelete [JNum 0] [JObj [(''identifier'', JNum 0)]] = Inr [JNum 0]
   \<and> computeDeletionSet [JNum 0] [[(''identifier'', JNum 0)]] = []"
  by (simp add: getIdsToDelete_def computeDeletionSet_def includes_js_def getProp_def)

text \<open>
  C2 (amended). \<^verbatim>\<open>getIdsToDelete\<close> returns, in their order, the ids of the database
  except those that are a truthy scalar and the \<^verbatim>\<open>identifier\<close> of a payload entry. No
  id of the database gives no deletion, an empty payload gives every id, and
  \<^verbatim>\<open>getIdsToDelete([a,b,c], [{identifier:a}, {identifier:d}])\<close> is \<^verbatim>\<open>[b,c]\<close> for a
  truthy scalar \<open>a\<close> and a \<open>d\<close> that is neither \<open>b\<close> nor \<open>c\<close>. Where every id of the
  database is a truthy scalar, the result is the set difference of the specification.
\<close>

theorem getIdsToDelete_difference:
  "getIdsToDelete idsInDb (map JObj es) =
     Inr (filter (\<lambda>id. \<not> (scalar id \<and> truthy id \<and>
                          id \<in> set (map (\<lambda>e. getProp e ''identifier'') es))) idsInDb)
   \<and> getIdsToDelete [] (map JObj es) = Inr []
   \<and> getIdsToDelete idsInDb [] = Inr idsInDb
   \<and> (scalar a \<and> truthy a \<and> a \<noteq> b \<and> a \<noteq> c \<and> d \<noteq> b \<and> d \<noteq> c \<longrightarrow>
        getIdsToDelete [a, b, c] [JObj [(''identifier'', a)], JObj [(''identifier'', d)]]
          = Inr [b, c])
   \<and> (list_all (\<lambda>id. scalar id \<and> truthy id) idsInDb \<longrightarrow>
        getIdsToDelete idsInDb (map JObj es) = Inr (computeDeletionSet idsInDb es))"
proof -
  have general: "getIdsToDelete ids (map JObj xs) =
     Inr (filter (\<lambda>id. \<not> (scalar id \<and> truthy id \<and>
                          id \<in> set (map (\<lambda>e. getProp e ''identifier'') xs))) ids)" for ids xs
    unfolding getIdsToDelete_def identifiers_objects
    by (auto simp: includes_js_iff intro!: filter_cong)
  have empty_db: "getIdsToDelete [] (map JObj es) = Inr []"
    by (simp add: general)
  have empty_payload: "getIdsToDelete idsInDb [] = Inr idsInDb"
    by (simp add: getIdsToDelete_def includes_js_def)
  have example: "getIdsToDelete [a, b, c] [JObj [(''identifier'', a)], JObj [(''identifier'', d)]]
          = Inr [b, c]"
    if "scalar a \<and> truthy a \<and> a \<noteq> b \<and> a \<noteq> c \<and> d \<noteq> b \<and> d \<noteq> c"
    using that general [of "[a, b, c]" "[[(''identifier'', a)], [(''identifier'', d)]]"]
    by (auto simp: getProp_def)
  have spec: "getIdsToDelete idsInDb (map JObj es) = Inr (computeDeletionSet idsInDb es)"
    if "list_all (\<lambda>id. scalar id \<and> truthy id) idsInDb"
    using that unfolding general computeDeletionSet_def
    by (auto simp: list_all_iff intro!: filter_cong)
  show ?thesis
    using general empty_db empty_payload example spec by blast
qed

theorem getIdsToDelete_difference_witness:
  "getIdsToDelete [JNum 1, JNum 2, JNum 3]
     [JObj [(''identifier'', JNum 1)], JObj [(''identifier'', JNum 4)]] = Inr [JNum 2, JNum 3]
   \<and> getIdsToDelete [JNum 1, JNum 2, JNum 3]
        (map JObj [[(''identifier'', JNum 1)], [(''identifier'', JNum 4)]])
      = Inr (computeDeletionSet [JNum 1, JNum 2, JNum 3]
               [[(''identifier'', JNum 1)], [(''identifier'', JNum 4)]])"
proof -
  have hyp1: "scalar (JNum 1) \<and> truthy (JNum 1) \<and> JNum 1 \<noteq> JNum 2 \<and> JNum 1 \<noteq> JNum 3
              \<and> JNum 4 \<noteq> JNum 2 \<and> JNum 4 \<noteq> JNum 3"
    by simp
  have hyp2: "list_all (\<lambda>id. scalar id \<and> truthy id) [JNum 1, JNum 2, JNum 3]"
    by simp
  note inst = getIdsToDelete_difference
    [of "[JNum 1, JNum 2, JNum 3]" "[[(''identifier'', JNum 1)], [(''identifier'', JNum 4)]]"
        "JNum 1" "JNum 2" "JNum 3" "JNum 4"]
  from inst hyp1 have first: "getIdsToDelete [JNum 1, JNum 2, JNum 3]
     [JObj [(''identifier'', JNum 1)], JObj [(''identifier'', JNum 4)]] = Inr [JNum 2, JNum 3]"
    by blast
  from inst hyp2 have second: "getIdsToDelete [JNum 1, JNum 2, JNum 3]
        (map JObj [[(''identifier'', JNum 1)], [(''identifier'', JNum 4)]])
      = Inr (computeDeletionSet [JNum 1, JNum 2, JNum 3]
               [[(''identifier'', JNum 1)], [(''identifier'', JNum 4)]])"
    by blast
  from first second show ?thesis by (rule conjI)
qed

section \<open>Properties of the shape formatters\<close>

lemma map_of_omit: "map_of (omit ob ks) k = (if k \<in> set ks then None else map_of ob k)"
  unfolding omit_def by (induction ob) auto

lemma getProp_update:
  "getProp (AList.update k v ob) k' = (if k' = k then v else getProp ob k')"
  by (simp add: getProp_def update_conv')

lemma index0_defined: "\<not> nullish v \<Longrightarrow> \<exists>f. index0 v = Inr f"
  by (cases v rule: index0.cases) simp_all

text \<open>
  C3 (as stated). With the four address fields present and \<^verbatim>\<open>addressCountry\<close> the empty
  string, the round trip gives \<^verbatim>\<open>null\<close> for the country
  (\<^verbatim>\<open>dataFromApi.address.addressCountry || null\<close>): the address is not reproduced.
\<close>

theorem roundTrip_empty_country_counterexample:
  "roundTrip
     [(''name'', JStr ''Acme''),
      (''address'', JObj [(''addressCountry'', JStr ''''), (''addressLocality'', JStr ''Caen''),
                         (''postalCode'', JStr ''14000''), (''streetAddress'', JStr ''1 quai'')]),
      (''contactPoints'', JArr [])]
   = Inr [(''name'', JStr ''Acme''),
          (''address'', JObj [(''addressCountry'', JNull), (''addressLocality'', JStr ''Caen''),
                             (''postalCode'', JStr ''14000''), (''streetAddress'', JStr ''1 quai'')])]"
  by (simp add: roundTrip_def prepareOrganizationDataForSave_def formatOrganizationForAPI_def
      getProp_def omit_def pick_def addressColumns_def orNull_def)

text \<open>
  C3 (amended). For a payload \<open>x\<close> whose \<^verbatim>\<open>address\<close> is an object and whose
  \<^verbatim>\<open>contactPoints\<close> is neither \<^verbatim>\<open>undefined\<close> nor \<^verbatim>\<open>null\<close>, the round trip
  returns an object whose \<^verbatim>\<open>address\<close> holds exactly the four address keys:
  \<^verbatim>\<open>addressLocality\<close>, \<^verbatim>\<open>postalCode\<close> and \<^verbatim>\<open>streetAddress\<close> with the values of
  \<open>x.address\<close>, and \<^verbatim>\<open>addressCountry\<close> with the value of \<open>x.address\<close> when that is
  truthy and \<^verbatim>\<open>null\<close> otherwise. Every top-level property of \<open>x\<close> other than
  \<^verbatim>\<open>address\<close>, \<^verbatim>\<open>contactPoints\<close> and the four address column names passes through
  unchanged; those column names and \<^verbatim>\<open>contactPoints\<close> are not properties of the result.
\<close>

theorem roundTrip_address:
  assumes "getProp x ''address'' = JObj a"
    and "\<not> nullish (getProp x ''contactPoints'')"
  shows "\<exists>r. roundTrip x = Inr r
    \<and> getProp r ''address'' =
        JObj [(''addressCountry'',
                 if truthy (getProp a ''addressCountry'') then getProp a ''addressCountry''
                 else JNull),
              (''addressLocality'', getProp a ''addressLocality''),
              (''postalCode'', getProp a ''postalCode''),
              (''streetAddress'', getProp a ''streetAddress'')]
    \<and> (\<forall>k. k \<notin> set addressColumns \<and> k \<noteq> ''address'' \<and> k \<noteq> ''contactPoints''
            \<longrightarrow> map_of r k = map_of x k)
    \<and> (\<forall>k \<in> set addressColumns. map_of r k = None)
    \<and> map_of r ''contactPoints'' = None"
proof -
  obtain f where f: "index0 (getProp x ''contactPoints'') = Inr f"
    using index0_defined [OF assms(2)] by blast
  define org where "org =
    AList.update ''streetAddress'' (getProp a ''streetAddress'')
      (AList.update ''postalCode'' (getProp a ''postalCode'')
        (AList.update ''addressLocality'' (getProp a ''addressLocality'')
          (AList.update ''addressCountry'' (orNull (getProp a ''addressCountry''))
            (omit x [''address'', ''contactPoints'']))))"
  define r where "r = formatOrganizationForAPI org"
  have run: "roundTrip x = Inr r"
    by (simp add: roundTrip_def prepareOrganizationDataForSave_def assms(1) f r_def org_def)
  have address: "getProp r ''address'' =
        JObj [(''addressCountry'',
                 if truthy (getProp a ''addressCountry'') then getProp a ''addressCountry''
                 else JNull),
              (''addressLocality'', getProp a ''addressLocality''),
              (''postalCode'', getProp a ''postalCode''),
              (''streetAddress'', getProp a ''streetAddress'')]"
    by (simp add: r_def org_def formatOrganizationForAPI_def getProp_update pick_def
        addressColumns_def update_conv' orNull_def)
  have others: "map_of r k = map_of x k"
    if "k \<notin> set addressColumns \<and> k \<noteq> ''address'' \<and> k \<noteq> ''contactPoints''" for k
    using that
    by (simp add: r_def org_def formatOrganizationForAPI_def update_conv' map_of_omit
        addressColumns_def)
  have columns: "\<forall>k \<in> set addressColumns. map_of r k = None"
    by (simp add: r_def formatOrganizationForAPI_def update_conv' map_of_omit addressColumns_def)
  have contacts: "map_of r ''contactPoints'' = None"
    by (simp add: r_def org_def formatOrganizationForAPI_def update_conv' map_of_omit
        addressColumns_def)
  from run address others columns contacts show ?thesis by blast
qed

theorem roundTrip_address_witness:
  "getProp [(''name'', JStr ''Acme''),
            (''address'', JObj [(''addressCountry'', JStr ''FR''), (''addressLocality'', JStr ''Caen''),
                               (''postalCode'', JStr ''14000''), (''streetAddress'', JStr ''1 quai'')]),
            (''contactPoints'', JArr [])] ''address''
     = JObj [(''addressCountry'', JStr ''FR''), (''addressLocality'', JStr ''Caen''),
             (''postalCode'', JStr ''14000''), (''streetAddress'', JStr ''1 quai'')]
   \<and> (\<exists>r. roundTrip [(''name'', JStr ''Acme''),
            (''address'', JObj [(''addressCountry'', JStr ''FR''), (''addressLocality'', JStr ''Caen''),
                               (''postalCode'', JStr ''14000''), (''streetAddress'', JStr ''1 quai'')]),
            (''contactPoints'', JArr [])] = Inr r
        \<and> getProp r ''address''
            = JObj [(''addressCountry'', JStr ''FR''), (''addressLocality'', JStr ''Caen''),
                    (''postalCode'', JStr ''14000''), (''streetAddress'', JStr ''1 quai'')]
        \<and> map_of r ''name'' = Some (JStr ''Acme''))"
proof -
  define x where "x = [(''name'', JStr ''Acme''),
            (''address'', JObj [(''addressCountry'', JStr ''FR''), (''addressLocality'', JStr ''Caen''),
                               (''postalCode'', JStr ''14000''), (''streetAddress'', JStr ''1 quai'')]),
            (''contactPoints'', JArr [])]"
  define a where "a = [(''addressCountry'', JStr ''FR''), (''addressLocality'', JStr ''Caen''),
                       (''postalCode'', JStr ''14000''), (''streetAddress'', JStr ''1 quai'')]"
  have h1: "getProp x ''address'' = JObj a"
    by (simp add: x_def a_def getProp_def)
  have h2: "\<not> nullish (getProp x ''contactPoints'')"
    by (simp add: x_def getProp_def)
  have name: "''name'' \<notin> set addressColumns \<and> ''name'' \<noteq> ''address''
              \<and> ''name'' \<noteq> ''contactPoints''"
    by (simp add: addressColumns_def)
  from roundTrip_address [OF h1 h2] obtain r where r: "roundTrip x = Inr r"
    "getProp r ''address'' =
        JObj [(''addressCountry'',
                 if truthy (getProp a ''addressCountry'') then getProp a ''addressCountry''
                 else JNull),
              (''addressLocality'', getProp a ''addressLocality''),
              (''postalCode'', getProp a ''postalCode''),
              (''streetAddress'', getProp a ''streetAddress'')]"
    "\<forall>k. k \<notin> set addressColumns \<and> k \<noteq> ''address'' \<and> k \<noteq> ''contactPoints''
            \<longrightarrow> map_of r k = map_of x k"
    by blast
  from r(3) name have "map_of r ''name'' = map_of x ''name''" by blast
  then have n: "map_of r ''name'' = Some (JStr ''Acme'')" by (simp add: x_def)
  have a: "getProp r ''address''
            = JObj [(''addressCountry'', JStr ''FR''), (''addressLocality'', JStr ''Caen''),
                    (''postalCode'', JStr ''14000''), (''streetAddress'', JStr ''1 quai'')]"
    using r(2) by (simp add: a_def getProp_def)
  from h1 r(1) a n show ?thesis unfolding x_def a_def by blast
qed

section \<open>Properties of the statements\<close>

lemma identifiers_append:
  "identifiers (xs @ ys) =
     (case identifiers xs of
        Inl e \<Rightarrow> Inl e
      | Inr a \<Rightarrow> (case identifiers ys of Inl e \<Rightarrow> Inl e | Inr b \<Rightarrow> Inr (a @ b)))"
  by (induction xs) (auto split: sum.splits)

lemma reduce_append:
  "reduce f (xs @ ys) acc =
     (case reduce f xs acc of Inl e \<Rightarrow> Inl e | Inr acc' \<Rightarrow> reduce f ys acc')"
  by (induction xs arbitrary: acc) (auto split: sum.splits)

lemma includes_js_filter_truthy_drop:
  assumes "\<not> truthy i \<or> i \<notin> set ids"
  shows "filter (\<lambda>id. \<not> includes_js (filter truthy (a @ i # b)) id) ids
       = filter (\<lambda>id. \<not> includes_js (filter truthy (a @ b)) id) ids"
  using assms by (auto simp: includes_js_iff intro!: filter_cong)

lemma getIdsToDelete_drop:
  assumes "member c ''identifier'' = Inr i" and "\<not> truthy i \<or> i \<notin> set ids"
  shows "getIdsToDelete ids (xs @ c # ys) = getIdsToDelete ids (xs @ ys)"
proof (cases "identifiers xs")
  case (Inl e)
  then show ?thesis by (simp add: getIdsToDelete_def identifiers_append)
next
  case (Inr a)
  show ?thesis
  proof (cases "identifiers ys")
    case (Inl e)
    then show ?thesis using Inr assms(1) by (simp add: getIdsToDelete_def identifiers_append)
  next
    case b: (Inr b)
    show ?thesis
      using Inr b assms(1) includes_js_filter_truthy_drop [OF assms(2), of a b]
      by (simp add: getIdsToDelete_def identifiers_append del: filter_append filter.simps)
  qed
qed

lemma contactUpdate_stale:
  assumes "member c ''identifier'' = Inr i" and "truthy i" and "i \<notin> set ids"
  shows "contactUpdate org ids acc c = Inr acc"
  using assms by (simp add: contactUpdate_def includes_js_iff)


lemma reduce_skip:
  assumes "\<And>acc. f acc c = Inr acc"
  shows "reduce f (xs @ c # ys) acc = reduce f (xs @ ys) acc"
  by (simp add: reduce_append assms split: sum.splits)

lemma contactUpdates_stale:
  assumes "member c ''identifier'' = Inr i" and "truthy i" and "i \<notin> set ids"
  shows "contactUpdates org ids (JArr (xs @ c # ys)) = contactUpdates org ids (JArr (xs @ ys))"
proof -
  have r: "reduce (contactUpdate org ids) (xs @ c # ys) [] = reduce (contactUpdate org ids) (xs @ ys) []"
    by (rule reduce_skip) (rule contactUpdate_stale [OF assms])
  have g: "getIdsToDelete ids (xs @ c # ys) = getIdsToDelete ids (xs @ ys)"
    by (rule getIdsToDelete_drop [OF assms(1)]) (simp add: assms(3))
  show ?thesis
    by (simp add: contactUpdates_def r g cong: sum.case_cong)
qed

lemma omit_update_omitted:
  "k \<in> set ks \<Longrightarrow> omit (AList.update k v ob) ks = omit ob ks"
  unfolding omit_def by (induction ob) auto


section \<open>Promises against the steps\<close>

lemma promiseAll_transacting:
  "case runAll F qs (working s) of
      Inl e \<Rightarrow> \<exists>w. promiseAll (map (transacting F) qs) s = (Rejected e, s\<lparr>working := w\<rparr>)
    | Inr w \<Rightarrow> \<exists>v. promiseAll (map (transacting F) qs) s = (Resolved v, s\<lparr>working := w\<rparr>)"
proof (induction qs arbitrary: s)
  case Nil
  show ?case by (simp add: resolve_def)
next
  case (Cons q qs)
  show ?case
  proof (cases "F (Exec q) (working s)")
    case (Some e)
    then have "promiseAll (map (transacting F) (q # qs)) s = (Rejected e, s\<lparr>working := working s\<rparr>)"
      by (simp add: andThen_def transacting_def)
    then have "\<exists>w. promiseAll (map (transacting F) (q # qs)) s = (Rejected e, s\<lparr>working := w\<rparr>)"
      by (rule exI)
    then show ?thesis using Some by simp
  next
    case None
    let ?s1 = "s\<lparr>working := fst (exec q (working s))\<rparr>"
    have step: "transacting F q s = (Resolved (snd (exec q (working s))), ?s1)"
      using None by (simp add: transacting_def)
    show ?thesis
    proof (cases "runAll F qs (working ?s1)")
      case (Inl e)
      with Cons.IH [of ?s1] obtain w where
        "promiseAll (map (transacting F) qs) ?s1 = (Rejected e, ?s1\<lparr>working := w\<rparr>)" by auto
      then have "promiseAll (map (transacting F) (q # qs)) s = (Rejected e, s\<lparr>working := w\<rparr>)"
        by (simp add: andThen_def step)
      then have "\<exists>w. promiseAll (map (transacting F) (q # qs)) s = (Rejected e, s\<lparr>working := w\<rparr>)"
        by (rule exI)
      then show ?thesis using None Inl by simp
    next
      case (Inr w)
      with Cons.IH [of ?s1] obtain v where
        "promiseAll (map (transacting F) qs) ?s1 = (Resolved v, ?s1\<lparr>working := w\<rparr>)" by auto
      then have "\<exists>v'. promiseAll (map (transacting F) (q # qs)) s = (Resolved v', s\<lparr>working := w\<rparr>)"
        by (simp add: andThen_def step resolve_def)
      then show ?thesis using None Inr by simp
    qed
  qed
qed

lemma promiseAll_rejected:
  "runAll F qs (working s) = Inl e \<Longrightarrow>
     \<exists>w. promiseAll (map (transacting F) qs) s = (Rejected e, s\<lparr>working := w\<rparr>)"
  using promiseAll_transacting [of F qs s] by simp

lemma promiseAll_resolved:
  "runAll F qs (working s) = Inr w \<Longrightarrow>
     \<exists>v. promiseAll (map (transacting F) qs) s = (Resolved v, s\<lparr>working := w\<rparr>)"
  using promiseAll_transacting [of F qs s] by simp

lemma createTransaction_steps:
  "createTransaction F p s =
     (case createSteps F p (committed s) of
        Inl e \<Rightarrow> (Rejected e, s\<lparr>working := committed s, settled := Some (Inl e)\<rparr>)
      | Inr r \<Rightarrow> (Resolved (snd r), s\<lparr>committed := fst r, working := fst r, settled := Some (Inr (snd r))\<rparr>))"
proof -
  let ?s0 = "s\<lparr>working := committed s, settled := None\<rparr>"
  let ?ins = "Insert Organization (organization p)"
  show ?thesis
  proof (cases "F (Exec ?ins) (committed s)")
    case (Some e)
    then show ?thesis
      by (simp add: createTransaction_def createSteps_def transaction_def orCatch_def andThen_def
          transacting_def rollback_def)
  next
    case None
    let ?d1 = "fst (exec ?ins (committed s))"
    let ?s1 = "?s0\<lparr>working := ?d1\<rparr>"
    have ins: "transacting F ?ins ?s0 = (Resolved (snd (exec ?ins (committed s))), ?s1)"
      using None by (simp add: transacting_def)
    show ?thesis
    proof (cases "firstOf (snd (exec ?ins (committed s)))")
      case (Inl e)
      then show ?thesis using None
        by (simp add: createTransaction_def createSteps_def transaction_def orCatch_def andThen_def
          ins rollback_def reject_def)
    next
      case oid: (Inr organizationId)
      show ?thesis
      proof (cases "contactsToCreate organizationId (contactPoints p)")
        case (Inl e)
        then show ?thesis using None oid
          by (simp add: createTransaction_def createSteps_def transaction_def orCatch_def andThen_def
            ins rollback_def reject_def)
      next
        case stmts: (Inr statements)
        show ?thesis
        proof (cases "runAll F statements ?d1")
          case (Inl e)
          then obtain w where "promiseAll (map (transacting F) statements) ?s1 = (Rejected e, ?s1\<lparr>working := w\<rparr>)"
            using promiseAll_rejected [of F statements ?s1 e] by auto
          then show ?thesis using None oid stmts Inl
            by (simp add: createTransaction_def createSteps_def transaction_def orCatch_def andThen_def
              ins rollback_def)
        next
          case (Inr d2)
          then obtain v where pa: "promiseAll (map (transacting F) statements) ?s1 = (Resolved v, ?s1\<lparr>working := d2\<rparr>)"
            using promiseAll_resolved [of F statements ?s1 d2] by auto
          show ?thesis
          proof (cases "F Commit d2")
            case (Some e)
            then show ?thesis using None oid stmts Inr pa
              by (simp add: createTransaction_def createSteps_def transaction_def orCatch_def andThen_def
                ins rollback_def commit_def resolve_def)
          next
            case c: None
            then show ?thesis using None oid stmts Inr pa
              by (simp add: createTransaction_def createSteps_def transaction_def orCatch_def andThen_def
                ins rollback_def commit_def resolve_def)
          qed
        qed
      qed
    qed
  qed
qed

lemma updateTransaction_steps:
  "(\<forall>e. updateSteps F organizationId p (committed s) = Inl e \<longrightarrow>
        updateTransaction F organizationId p s
          = (Rejected e, s\<lparr>working := committed s, settled := Some (Inl e)\<rparr>))
   \<and> (\<forall>d2. updateSteps F organizationId p (committed s) = Inr d2 \<longrightarrow>
        (\<exists>v. updateTransaction F organizationId p s
          = (Resolved v, s\<lparr>committed := d2, working := d2, settled := Some (Inr v)\<rparr>)))"
proof -
  let ?s0 = "s\<lparr>working := committed s, settled := None\<rparr>"
  let ?upd = "Update Organization organizationId (organization p)"
  note defs = updateTransaction_def updateSteps_def transaction_def orCatch_def andThen_def
    rollback_def reject_def select_def commit_def
  show ?thesis
  proof (cases "F (Exec ?upd) (committed s)")
    case (Some e)
    then show ?thesis by (simp add: defs transacting_def)
  next
    case None
    let ?d1 = "fst (exec ?upd (committed s))"
    let ?s1 = "?s0\<lparr>working := ?d1\<rparr>"
    have upd: "transacting F ?upd ?s0 = (Resolved (snd (exec ?upd (committed s))), ?s1)"
      using None by (simp add: transacting_def)
    show ?thesis
    proof (cases "F (SelectContactIds organizationId) (committed s)")
      case (Some e)
      then show ?thesis using None by (simp add: defs upd)
    next
      case sel: None
      show ?thesis
      proof (cases "contactUpdates organizationId (selectContactIds organizationId (committed s))
                      (contactPoints p)")
        case (Inl e)
        then show ?thesis using None sel by (simp add: defs upd)
      next
        case stmts: (Inr statements)
        show ?thesis
        proof (cases "runAll F statements ?d1")
          case (Inl e)
          then obtain w where
            "promiseAll (map (transacting F) statements) ?s1 = (Rejected e, ?s1\<lparr>working := w\<rparr>)"
            using promiseAll_rejected [of F statements ?s1 e] by auto
          then show ?thesis using None sel stmts Inl by (simp add: defs upd)
        next
          case (Inr d2)
          then obtain v where
            pa: "promiseAll (map (transacting F) statements) ?s1 = (Resolved v, ?s1\<lparr>working := d2\<rparr>)"
            using promiseAll_resolved [of F statements ?s1 d2] by auto
          show ?thesis
          proof (cases "F Commit d2")
            case (Some e)
            then show ?thesis using None sel stmts Inr pa by (simp add: defs upd)
          next
            case c: None
            then show ?thesis using None sel stmts Inr pa by (simp add: defs upd)
          qed
        qed
      qed
    qed
  qed
qed

lemma readOrganization_run:
  "orCatch (readOrganization F organizationId) (\<lambda>error. resolve (errorResult error)) s
     = (readResult F organizationId (committed s), s)"
  by (simp add: readOrganization_def orCatch_def andThen_def select_def resolve_def readResult_def
      split: option.splits)

lemma createOrganization_steps:
  assumes "prepareOrganizationDataForSave apiData = Inr p"
  shows "run (createOrganization F apiData) d =
      (case createSteps F p d of
         Inl e \<Rightarrow> (Resolved (errorResult e), d)
       | Inr r \<Rightarrow> (readResult F (snd r) (fst r), fst r))"
proof (cases "createSteps F p d")
  case (Inl e)
  then show ?thesis
    by (simp add: run_def createOrganization_def assms orCatch_def andThen_def
        createTransaction_steps resolve_def)
next
  case (Inr r)
  then show ?thesis
    by (simp add: run_def createOrganization_def assms orCatch_def andThen_def
        createTransaction_steps resolve_def readOrganization_def select_def readResult_def
        split: option.splits)
qed

lemma updateOrganization_steps:
  assumes "prepareOrganizationDataForSave apiData = Inr p"
  shows "run (updateOrganization F organizationId apiData) d =
      (case updateSteps F organizationId p d of
         Inl e \<Rightarrow> (Resolved (errorResult e), d)
       | Inr d2 \<Rightarrow> (readResult F organizationId d2, d2))"
proof (cases "updateSteps F organizationId p d")
  case (Inl e)
  then have "updateTransaction F organizationId p \<lparr>committed = d, working = d, settled = None\<rparr>
      = (Rejected e, \<lparr>committed = d, working = d, settled = Some (Inl e)\<rparr>)"
    using updateTransaction_steps [of F organizationId p "\<lparr>committed = d, working = d, settled = None\<rparr>"]
    by simp
  then show ?thesis using Inl
    by (simp add: run_def updateOrganization_def assms orCatch_def andThen_def resolve_def)
next
  case (Inr d2)
  then obtain v where "updateTransaction F organizationId p \<lparr>committed = d, working = d, settled = None\<rparr>
      = (Resolved v, \<lparr>committed = d2, working = d2, settled = Some (Inr v)\<rparr>)"
    using updateTransaction_steps [of F organizationId p "\<lparr>committed = d, working = d, settled = None\<rparr>"]
    by auto
  then show ?thesis using Inr
    by (simp add: run_def updateOrganization_def assms andThen_def resolve_def orCatch_def
        readOrganization_def select_def readResult_def split: option.splits)
qed

lemma exec_collation: "collation (fst (exec q d)) = collation d"
  by (cases "tableOf q") (simp_all add: exec_def)

lemma runAll_collation: "runAll F qs w = Inr w' \<Longrightarrow> collation w' = collation w"
  by (induction qs arbitrary: w) (auto simp: exec_collation split: option.splits)

lemma updateSteps_collation:
  "updateSteps F organizationId p d = Inr d2 \<Longrightarrow> collation d2 = collation d"
  by (auto simp: updateSteps_def exec_collation split: option.splits sum.splits
      dest!: runAll_collation)

lemma createSteps_collation:
  "createSteps F p d = Inr (d2, organizationId) \<Longrightarrow> collation d2 = collation d"
  by (auto simp: createSteps_def exec_collation split: option.splits sum.splits
      dest!: runAll_collation)

lemma updateOrganization_collation:
  "collation (snd (run (updateOrganization F organizationId apiData) d)) = collation d"
proof (cases "prepareOrganizationDataForSave apiData")
  case (Inl e)
  then show ?thesis by (simp add: updateOrganization_def run_def reject_def)
next
  case (Inr p)
  show ?thesis
    by (cases "updateSteps F organizationId p d")
      (simp_all add: updateOrganization_steps [OF Inr] updateSteps_collation)
qed


lemma db_equal:
  "organizations a = organizations b \<Longrightarrow> contact_points a = contact_points b
     \<Longrightarrow> collation a = collation b \<Longrightarrow> (a :: db) = b"
  by simp

lemma getOrganization_run:
  "run (getOrganization F organizationId) d = (readResult F organizationId d, d)"
  by (simp add: run_def getOrganization_def readOrganization_run)

lemma deleteOrganization_run:
  "run (deleteOrganization F organizationId) d =
     (case F (Exec (Delete Organization organizationId)) d of
        Some e \<Rightarrow> (Resolved (errorResult e), d)
      | None \<Rightarrow>
          (if list_ex (\<lambda>r. col r ''id'' = organizationId) (organizations d)
           then (Resolved (JObj [(''id'', organizationId)]),
                 d\<lparr>organizations := filter (\<lambda>r. col r ''id'' \<noteq> organizationId) (organizations d)\<rparr>)
           else (Resolved (JObj []), d)))"
proof -
  have none: "filter (\<lambda>r. col r ''id'' \<noteq> organizationId) (organizations d) = organizations d"
    if "\<not> list_ex (\<lambda>r. col r ''id'' = organizationId) (organizations d)"
    using that by (auto simp: list_ex_iff filter_id_conv)
  have count: "countRows (organizations d) organizationId \<noteq> 0
      \<longleftrightarrow> list_ex (\<lambda>r. col r ''id'' = organizationId) (organizations d)"
    by (auto simp: countRows_def list_ex_iff filter_empty_conv)
  show ?thesis
    by (auto simp: run_def deleteOrganization_def orCatch_def andThen_def autocommit_def
        resolve_def count none exec_simps split: option.splits)
qed

lemma getOrganizationPaginatedList_run:
  "run (getOrganizationPaginatedList K F filters sorting pagination) d =
     (case F SelectOrganizations d of
        Some e \<Rightarrow> (Rejected e, d)
      | None \<Rightarrow> (fst (getOrganizationPaginatedList K F filters sorting pagination \<lparr>committed = d, working = d, settled = None\<rparr>), d))"
  by (simp add: run_def getOrganizationPaginatedList_def andThen_def select_def resolve_def
      split: option.splits)

section \<open>The reconciliation of the contact points\<close>

lemma prepare_replace_contacts:
  assumes "prepareOrganizationDataForSave x = Inr p" and "\<not> nullish v"
  shows "\<exists>p'. prepareOrganizationDataForSave (AList.update ''contactPoints'' v x) = Inr p'
            \<and> organization p' = organization p \<and> contactPoints p' = v"
proof -
  obtain f where f: "index0 v = Inr f" using index0_defined [OF assms(2)] by blast
  show ?thesis
    using assms(1) f
    by (auto simp: prepareOrganizationDataForSave_def Let_def getProp_update omit_update_omitted
        split: sum.splits)
qed

lemma prepare_replace_contacts_error:
  assumes "prepareOrganizationDataForSave x = Inl e" and "\<not> nullish (getProp x ''contactPoints'')"
  shows "prepareOrganizationDataForSave (AList.update ''contactPoints'' v x) = Inl e"
proof -
  obtain f where f: "index0 (getProp x ''contactPoints'') = Inr f"
    using index0_defined [OF assms(2)] by blast
  show ?thesis
    using assms(1) f
    by (auto simp: prepareOrganizationDataForSave_def Let_def getProp_update split: sum.splits)
qed

lemma prepare_contactPoints:
  "prepareOrganizationDataForSave x = Inr p \<Longrightarrow> contactPoints p = getProp x ''contactPoints''"
  by (auto simp: prepareOrganizationDataForSave_def Let_def split: sum.splits)

lemma updateOrganization_drop_stale:
  assumes x: "getProp x ''contactPoints'' = JArr (xs @ c # ys)"
    and c: "member c ''identifier'' = Inr i" "truthy i" "i \<notin> set (selectContactIds organizationId d)"
  shows "run (updateOrganization F organizationId x) d
       = run (updateOrganization F organizationId (AList.update ''contactPoints'' (JArr (xs @ ys)) x)) d"
proof (cases "prepareOrganizationDataForSave x")
  case (Inl e)
  then have "prepareOrganizationDataForSave (AList.update ''contactPoints'' (JArr (xs @ ys)) x) = Inl e"
    by (rule prepare_replace_contacts_error) (simp add: x)
  with Inl show ?thesis by (simp add: updateOrganization_def)
next
  case (Inr p)
  then obtain p' where p': "prepareOrganizationDataForSave (AList.update ''contactPoints'' (JArr (xs @ ys)) x) = Inr p'"
    "organization p' = organization p" "contactPoints p' = JArr (xs @ ys)"
    using prepare_replace_contacts [of x p "JArr (xs @ ys)"] by auto
  have cp: "contactPoints p = JArr (xs @ c # ys)"
    using prepare_contactPoints [OF Inr] x by simp
  have "updateSteps F organizationId p d = updateSteps F organizationId p' d"
    unfolding updateSteps_def p'(2,3) cp contactUpdates_stale [OF c] by (rule refl)
  then show ?thesis
    by (simp add: updateOrganization_steps [OF Inr] updateOrganization_steps [OF p'(1)])
qed

text \<open>
  C4. A payload entry whose \<^verbatim>\<open>identifier\<close> is truthy and is not an id of the snapshot
  adds no statement in the reduce of \<^verbatim>\<open>updateOrganization\<close> (neither an update nor
  an insert), and the statements of the whole payload, deletions included, are those of the
  payload without the entry: the deletion set is the one the other entries give.
  \<^verbatim>\<open>updateOrganization\<close> on the payload and on the payload without the entry give
  the same result and the same database, whatever fails.
\<close>

theorem stale_identifier_dropped:
  assumes "member c ''identifier'' = Inr i" and "truthy i" and "i \<notin> set existingContactIds"
  shows "contactUpdate organizationId existingContactIds acc c = Inr acc
    \<and> contactUpdates organizationId existingContactIds (JArr (xs @ c # ys))
        = contactUpdates organizationId existingContactIds (JArr (xs @ ys))
    \<and> getIdsToDelete existingContactIds (xs @ c # ys) = getIdsToDelete existingContactIds (xs @ ys)
    \<and> (getProp x ''contactPoints'' = JArr (xs @ c # ys)
         \<and> selectContactIds organizationId d = existingContactIds \<longrightarrow>
        run (updateOrganization F organizationId x) d
          = run (updateOrganization F organizationId
                   (AList.update ''contactPoints'' (JArr (xs @ ys)) x)) d)"
proof -
  have one: "contactUpdate organizationId existingContactIds acc c = Inr acc"
    by (rule contactUpdate_stale [OF assms])
  have all: "contactUpdates organizationId existingContactIds (JArr (xs @ c # ys))
        = contactUpdates organizationId existingContactIds (JArr (xs @ ys))"
    by (rule contactUpdates_stale [OF assms])
  have del: "getIdsToDelete existingContactIds (xs @ c # ys)
        = getIdsToDelete existingContactIds (xs @ ys)"
    by (rule getIdsToDelete_drop [OF assms(1)]) (simp add: assms(3))
  have whole: "run (updateOrganization F organizationId x) d
          = run (updateOrganization F organizationId
                   (AList.update ''contactPoints'' (JArr (xs @ ys)) x)) d"
    if "getProp x ''contactPoints'' = JArr (xs @ c # ys)
         \<and> selectContactIds organizationId d = existingContactIds"
    using that assms by (intro updateOrganization_drop_stale [where c = c and i = i]) simp_all
  from one all del whole show ?thesis by blast
qed

theorem stale_identifier_dropped_witness:
  "member (JObj [(''identifier'', JNum 9), (''email'', JStr ''z@x.com'')]) ''identifier''
     = Inr (JNum 9)
   \<and> truthy (JNum 9)
   \<and> JNum 9 \<notin> set [JNum 1, JNum 2]
   \<and> contactUpdate (JNum 7) [JNum 1, JNum 2] []
         (JObj [(''identifier'', JNum 9), (''email'', JStr ''z@x.com'')]) = Inr []
   \<and> contactUpdates (JNum 7) [JNum 1, JNum 2]
         (JArr [JObj [(''identifier'', JNum 1)],
                JObj [(''identifier'', JNum 9), (''email'', JStr ''z@x.com'')]])
       = contactUpdates (JNum 7) [JNum 1, JNum 2] (JArr [JObj [(''identifier'', JNum 1)]])"
proof -
  have h1: "member (JObj [(''identifier'', JNum 9), (''email'', JStr ''z@x.com'')]) ''identifier''
     = Inr (JNum 9)"
    by (simp add: getProp_def)
  have h2: "truthy (JNum 9)" by simp
  have h3: "JNum 9 \<notin> set [JNum 1, JNum 2]" by simp
  show ?thesis
    using h1 h2 h3
      stale_identifier_dropped [OF h1 h2 h3, of "JNum 7" "[]" "[JObj [(''identifier'', JNum 1)]]" "[]"]
    by simp
qed


section \<open>Atomicity and the error results of the facade\<close>

lemma runAll_failure:
  "runAll F pre w = Inr w' \<Longrightarrow> F (Exec q) w' = Some e \<Longrightarrow> runAll F (pre @ q # post) w = Inl e"
  by (induction pre arbitrary: w) (auto split: option.splits)

lemma examplePayload_prepared:
  "prepareOrganizationDataForSave examplePayload =
     Inr \<lparr>organization =
            [(''name'', JStr ''Acme''), (''addressCountry'', JStr ''FR''),
             (''addressLocality'', JStr ''Caen''), (''postalCode'', JStr ''14000''),
             (''streetAddress'', JStr ''1 quai'')],
          contactPoint = JObj [(''identifier'', JNum 1), (''contactType'', JStr ''phone''),
                               (''email'', JStr ''new@x.com'')],
          contactPoints = JArr [JObj [(''identifier'', JNum 1), (''contactType'', JStr ''phone''),
                     (''email'', JStr ''new@x.com'')],
               JObj [(''contactType'', JStr ''fax''), (''email'', JStr ''y@x.com'')]]\<rparr>"
  by (simp add: prepareOrganizationDataForSave_def examplePayload_def getProp_def omit_def
      orNull_def)

text \<open>
  C5. \<^verbatim>\<open>createOrganization\<close> on a prepared payload: when a step of the transaction
  fails (the insert of the organization, the reduce over the contact points, an insert of a
  contact point, the commit), the database afterwards is the database before, so the
  organization row of the failed run is not in it, and the result is the error result
  \<^verbatim>\<open>{error}\<close> of the failure. When no step fails, the database afterwards holds the
  whole aggregate and the result is the aggregate read again. In particular a contact-point
  insert that fails after the organization was inserted leaves the database unchanged.
\<close>

theorem createOrganization_atomic:
  assumes "prepareOrganizationDataForSave apiData = Inr p"
  shows "(\<forall>e. createSteps F p d = Inl e \<longrightarrow>
            run (createOrganization F apiData) d = (Resolved (errorResult e), d))
    \<and> (\<forall>d2 organizationId. createSteps F p d = Inr (d2, organizationId) \<longrightarrow>
            run (createOrganization F apiData) d = (readResult F organizationId d2, d2))
    \<and> (\<forall>e organizationId pre q post w.
          F (Exec (Insert Organization (organization p))) d = None
          \<and> firstOf (snd (exec (Insert Organization (organization p)) d)) = Inr organizationId
          \<and> contactsToCreate organizationId (contactPoints p) = Inr (pre @ q # post)
          \<and> runAll F pre (fst (exec (Insert Organization (organization p)) d)) = Inr w
          \<and> F (Exec q) w = Some e \<longrightarrow>
            run (createOrganization F apiData) d = (Resolved (errorResult e), d))"
proof -
  note steps = createOrganization_steps [OF assms, of F d]
  have failure: "run (createOrganization F apiData) d = (Resolved (errorResult e), d)"
    if "createSteps F p d = Inl e" for e
    using steps that by simp
  have success: "run (createOrganization F apiData) d = (readResult F organizationId d2, d2)"
    if "createSteps F p d = Inr (d2, organizationId)" for d2 organizationId
    using steps that by simp
  have contact: "run (createOrganization F apiData) d = (Resolved (errorResult e), d)"
    if "F (Exec (Insert Organization (organization p))) d = None
          \<and> firstOf (snd (exec (Insert Organization (organization p)) d)) = Inr organizationId
          \<and> contactsToCreate organizationId (contactPoints p) = Inr (pre @ q # post)
          \<and> runAll F pre (fst (exec (Insert Organization (organization p)) d)) = Inr w
          \<and> F (Exec q) w = Some e" for e organizationId pre q post w
  proof -
    have "runAll F (pre @ q # post) (fst (exec (Insert Organization (organization p)) d)) = Inl e"
      using that by (intro runAll_failure [where w' = w]) simp_all
    then have "createSteps F p d = Inl e"
      using that by (simp add: createSteps_def)
    then show ?thesis by (rule failure)
  qed
  from failure success contact show ?thesis by blast
qed

theorem createOrganization_atomic_witness:
  "run (createOrganization contactInsertFails examplePayload) exampleDb
     = (Resolved (JObj [(''error'', JStr ''insert failed'')]), exampleDb)"
proof -
  note prep = examplePayload_prepared
  have steps: "createSteps contactInsertFails
      \<lparr>organization =
            [(''name'', JStr ''Acme''), (''addressCountry'', JStr ''FR''),
             (''addressLocality'', JStr ''Caen''), (''postalCode'', JStr ''14000''),
             (''streetAddress'', JStr ''1 quai'')],
          contactPoint = JObj [(''identifier'', JNum 1), (''contactType'', JStr ''phone''),
                               (''email'', JStr ''new@x.com'')],
          contactPoints = JArr [JObj [(''identifier'', JNum 1), (''contactType'', JStr ''phone''),
                     (''email'', JStr ''new@x.com'')],
               JObj [(''contactType'', JStr ''fax''), (''email'', JStr ''y@x.com'')]]\<rparr>
      exampleDb = Inl (JStr ''insert failed'')"
    by (simp add: createSteps_def contactInsertFails_def exampleDb_def freshId_def col_def
        getProp_def contactsToCreate_def contactToCreate_def exec_simps storedRow_def)
  from createOrganization_atomic [OF prep, of contactInsertFails exampleDb] steps
  have "run (createOrganization contactInsertFails examplePayload) exampleDb
     = (Resolved (errorResult (JStr ''insert failed'')), exampleDb)"
    by blast
  then show ?thesis by (simp add: errorResult_def)
qed

text \<open>
  C6 (the list operation). \<^verbatim>\<open>getOrganizationPaginatedList\<close> has no
  \<^verbatim>\<open>.catch\<close>: when the query fails, its promise is rejected with the engine's
  error; no \<^verbatim>\<open>{error}\<close> object is returned.
\<close>

theorem getOrganizationPaginatedList_rejects:
  assumes "F SelectOrganizations d = Some e"
  shows "run (getOrganizationPaginatedList K F filters sorting pagination) d = (Rejected e, d)"
  using assms by (simp add: getOrganizationPaginatedList_run)

theorem getOrganizationPaginatedList_rejects_witness:
  "allFail SelectOrganizations exampleDb = Some (JStr ''connection lost'')
   \<and> run (getOrganizationPaginatedList exampleCollaborators allFail (JObj []) (JArr []) (JObj []))
        exampleDb
      = (Rejected (JStr ''connection lost''), exampleDb)"
proof -
  have h: "allFail SelectOrganizations exampleDb = Some (JStr ''connection lost'')"
    by (simp add: allFail_def)
  have "run (getOrganizationPaginatedList exampleCollaborators allFail (JObj []) (JArr []) (JObj []))
        exampleDb
      = (Rejected (JStr ''connection lost''), exampleDb)"
    by (rule getOrganizationPaginatedList_rejects) (rule h)
  with h show ?thesis by (rule conjI)
qed

text \<open>
  C7. When the engine does not fail, \<^verbatim>\<open>deleteOrganization\<close> resolves to
  \<^verbatim>\<open>{id: organizationId}\<close> and removes the rows with that id when there is one, and
  resolves to the empty object, the database unchanged, when there is none. A second
  deletion of the same id right after resolves to the empty object.
\<close>

theorem deleteOrganization_idempotent:
  assumes "F (Exec (Delete Organization organizationId)) d = None"
    and "F (Exec (Delete Organization organizationId))
           (snd (run (deleteOrganization F organizationId) d)) = None"
  shows "run (deleteOrganization F organizationId) d =
           (if list_ex (\<lambda>r. col r ''id'' = organizationId) (organizations d)
            then (Resolved (JObj [(''id'', organizationId)]),
                  d\<lparr>organizations :=
                      filter (\<lambda>r. col r ''id'' \<noteq> organizationId) (organizations d)\<rparr>)
            else (Resolved (JObj []), d))
    \<and> run (deleteOrganization F organizationId) (snd (run (deleteOrganization F organizationId) d))
        = (Resolved (JObj []), snd (run (deleteOrganization F organizationId) d))"
proof -
  let ?d1 = "snd (run (deleteOrganization F organizationId) d)"
  have first: "run (deleteOrganization F organizationId) d =
           (if list_ex (\<lambda>r. col r ''id'' = organizationId) (organizations d)
            then (Resolved (JObj [(''id'', organizationId)]),
                  d\<lparr>organizations :=
                      filter (\<lambda>r. col r ''id'' \<noteq> organizationId) (organizations d)\<rparr>)
            else (Resolved (JObj []), d))"
    using assms(1) by (simp add: deleteOrganization_run)
  have gone: "\<not> list_ex (\<lambda>r. col r ''id'' = organizationId) (organizations ?d1)"
    unfolding first by (auto simp: list_ex_iff)
  have second: "run (deleteOrganization F organizationId) ?d1 = (Resolved (JObj []), ?d1)"
    using assms(2) gone by (simp add: deleteOrganization_run [of F organizationId ?d1])
  from first second show ?thesis by (rule conjI)
qed
theorem deleteOrganization_idempotent_witness:
  "run (deleteOrganization noFaults (JNum 7)) exampleDb
     = (Resolved (JObj [(''id'', JNum 7)]), exampleDb\<lparr>organizations := []\<rparr>)
   \<and> run (deleteOrganization noFaults (JNum 7)) (exampleDb\<lparr>organizations := []\<rparr>)
     = (Resolved (JObj []), exampleDb\<lparr>organizations := []\<rparr>)"
proof -
  have h1: "noFaults (Exec (Delete Organization (JNum 7))) exampleDb = None"
    by (simp add: noFaults_def)
  have h2: "noFaults (Exec (Delete Organization (JNum 7)))
              (snd (run (deleteOrganization noFaults (JNum 7)) exampleDb)) = None"
    by (simp add: noFaults_def)
  have ex: "list_ex (\<lambda>r. col r ''id'' = JNum 7) (organizations exampleDb)"
    by (simp add: exampleDb_def col_def getProp_def)
  have flt: "filter (\<lambda>r. col r ''id'' \<noteq> JNum 7) (organizations exampleDb) = []"
    by (simp add: exampleDb_def col_def getProp_def)
  note both = deleteOrganization_idempotent [OF h1 h2]
  from both ex flt have first: "run (deleteOrganization noFaults (JNum 7)) exampleDb
     = (Resolved (JObj [(''id'', JNum 7)]), exampleDb\<lparr>organizations := []\<rparr>)"
    by simp
  from both have "run (deleteOrganization noFaults (JNum 7))
        (snd (run (deleteOrganization noFaults (JNum 7)) exampleDb))
     = (Resolved (JObj []), snd (run (deleteOrganization noFaults (JNum 7)) exampleDb))"
    by (rule conjunct2)
  then have second: "run (deleteOrganization noFaults (JNum 7)) (exampleDb\<lparr>organizations := []\<rparr>)
     = (Resolved (JObj []), exampleDb\<lparr>organizations := []\<rparr>)"
    unfolding first by simp
  from first second show ?thesis by (rule conjI)
qed

section \<open>The read queries: contact points and filters\<close>

lemma camelCase_columns:
  "camelCase ''contact_points'' = ''contactPoints''"
  "camelCase ''contact_type'' = ''contactType''"
  "camelCase ''organization_id'' = ''organizationId''"
  "camelCase ''address_locality'' = ''addressLocality''"
  "camelCase ''postal_code'' = ''postalCode''"
  "camelCase ''name'' = ''name''"
  by code_simp+

lemma set_orderBy: "set (orderBy L sorting rs) = set rs"
  by (simp add: orderBy_def Let_def split: list.splits)









text \<open>
  C8 (as stated). A filter value is pasted into the \<^verbatim>\<open>LIKE\<close> pattern as it is, so its
  \<^verbatim>\<open>%\<close> and \<^verbatim>\<open>_\<close> are wildcards: the postal code filter \<^verbatim>\<open>_4\<close> matches
  \<^verbatim>\<open>14000\<close>, which does not start with it, and the name filter \<^verbatim>\<open>%\<close> matches a
  name that does not contain it.
\<close>

theorem like_wildcard_counterexample:
  "filterMatches [(''postal_code'', JStr ''_4'')]
     [(''id'', JNum 7), (''name'', JStr ''Acme''), (''postalCode'', JStr ''14000'')]
   \<and> \<not> prefix ''_4'' ''14000''
   \<and> filterMatches [(''name'', JStr ''%'')]
     [(''id'', JNum 7), (''name'', JStr ''Acme''), (''postalCode'', JStr ''14000'')]
   \<and> \<not> sublist ''%'' ''Acme''"
  by code_simp


lemma like_percent: "like ''%'' s"
  by (induction s) auto

lemma like_percent_Cons:
  "like (CHR ''%'' # q) s \<longleftrightarrow> (\<exists>a b. s = a @ b \<and> like q b)"
proof (induction s)
  case Nil
  then show ?case by simp
next
  case (Cons c cs)
  show ?case
  proof
    assume "like (CHR ''%'' # q) (c # cs)"
    then consider "like q (c # cs)" | "like (CHR ''%'' # q) cs" by auto
    then show "\<exists>a b. c # cs = a @ b \<and> like q b"
    proof cases
      case 1
      then have "c # cs = [] @ (c # cs) \<and> like q (c # cs)" by simp
      then show ?thesis by blast
    next
      case 2
      with Cons.IH obtain a b where "cs = a @ b" "like q b" by blast
      then have "c # cs = (c # a) @ b \<and> like q b" by simp
      then show ?thesis by blast
    qed
  next
    assume "\<exists>a b. c # cs = a @ b \<and> like q b"
    then obtain a b where ab: "c # cs = a @ b" "like q b" by blast
    show "like (CHR ''%'' # q) (c # cs)"
    proof (cases a)
      case Nil
      with ab show ?thesis by simp
    next
      case (Cons x a')
      with ab have "cs = a' @ b" by simp
      with ab(2) Cons.IH have "like (CHR ''%'' # q) cs" by blast
      then show ?thesis by simp
    qed
  qed
qed

lemma like_plain:
  "plain p \<Longrightarrow> like (p @ q) s \<longleftrightarrow> (\<exists>t. s = p @ t \<and> like q t)"
proof (induction p arbitrary: s)
  case Nil
  then show ?case by simp
next
  case (Cons x p)
  then have x: "x \<noteq> CHR ''%''" "x \<noteq> CHR ''_''" "x \<noteq> CHR 0x5C" and p: "plain p"
    by (simp_all add: plain_def)
  show ?case
  proof (cases s)
    case Nil
    then show ?thesis using x by simp
  next
    case (Cons c cs)
    then show ?thesis using x Cons.IH [OF p, of cs] by auto
  qed
qed

lemma like_prefix: "plain p \<Longrightarrow> like (p @ ''%'') s \<longleftrightarrow> prefix p s"
  by (auto simp: like_plain like_percent prefix_def simp del: like.simps)

lemma like_infix: "plain p \<Longrightarrow> like (CHR ''%'' # p @ ''%'') s \<longleftrightarrow> sublist p s"
proof -
  assume p: "plain p"
  have "like (CHR ''%'' # p @ ''%'') s \<longleftrightarrow> (\<exists>a b. s = a @ b \<and> like (p @ ''%'') b)"
    by (rule like_percent_Cons)
  also have "\<dots> \<longleftrightarrow> (\<exists>a b. s = a @ b \<and> prefix p b)"
    by (simp add: like_prefix [OF p])
  also have "\<dots> \<longleftrightarrow> sublist p s"
    by (auto simp: sublist_def prefix_def)
  finally show ?thesis .
qed

lemma whereEquals_iff:
  "whereEquals r conditions \<longleftrightarrow> (\<forall>p \<in> set conditions. col r (camelCase (fst p)) = snd p)"
  by (simp add: whereEquals_def list_all_iff)

lemma filterMatches_plain:
  assumes "truthy (getProp filters ''name'') \<longrightarrow> plain (toStr (getProp filters ''name''))"
    and "truthy (getProp filters ''address_locality'')
           \<longrightarrow> plain (toStr (getProp filters ''address_locality''))"
    and "truthy (getProp filters ''postal_code'')
           \<longrightarrow> plain (toStr (getProp filters ''postal_code''))"
  shows "filterMatches filters r \<longleftrightarrow>
        (\<forall>p \<in> set (omit filters [''name'', ''address_locality'', ''postal_code'']).
            col r (camelCase (fst p)) = snd p)
      \<and> (truthy (getProp filters ''name'') \<longrightarrow>
           (\<exists>n. col r ''name'' = JStr n \<and> sublist (toStr (getProp filters ''name'')) n))
      \<and> (truthy (getProp filters ''address_locality'') \<longrightarrow>
           (\<exists>n. col r ''addressLocality'' = JStr n
                \<and> prefix (toStr (getProp filters ''address_locality'')) n))
      \<and> (truthy (getProp filters ''postal_code'') \<longrightarrow>
           (\<exists>n. col r ''postalCode'' = JStr n
                \<and> prefix (toStr (getProp filters ''postal_code'')) n))"
proof -
  have name: "whereLike r ''name'' (''%'' @ toStr (getProp filters ''name'') @ ''%'')
      \<longleftrightarrow> (\<exists>n. col r ''name'' = JStr n \<and> sublist (toStr (getProp filters ''name'')) n)"
    if "truthy (getProp filters ''name'')"
    unfolding whereLike_def camelCase_columns
    using assms(1) that by (auto simp: like_infix simp del: like.simps split: jsval.splits)
  have locality: "whereLike r ''address_locality'' (toStr (getProp filters ''address_locality'') @ ''%'')
      \<longleftrightarrow> (\<exists>n. col r ''addressLocality'' = JStr n
                \<and> prefix (toStr (getProp filters ''address_locality'')) n)"
    if "truthy (getProp filters ''address_locality'')"
    unfolding whereLike_def camelCase_columns
    using assms(2) that by (auto simp: like_prefix simp del: like.simps split: jsval.splits)
  have postal: "whereLike r ''postal_code'' (toStr (getProp filters ''postal_code'') @ ''%'')
      \<longleftrightarrow> (\<exists>n. col r ''postalCode'' = JStr n
                \<and> prefix (toStr (getProp filters ''postal_code'')) n)"
    if "truthy (getProp filters ''postal_code'')"
    unfolding whereLike_def camelCase_columns
    using assms(3) that by (auto simp: like_prefix simp del: like.simps split: jsval.splits)
  show ?thesis
    unfolding filterMatches_def Let_def whereEquals_iff
    using name locality postal by auto
qed

lemma query_set:
  "set (getFilteredOrganizationsQuery filters sorting d)
     = selectedRow d ` {r \<in> set (organizations d). filterMatches filters r}"
  by (auto simp: getFilteredOrganizationsQuery_def set_orderBy)

text \<open>
  C8 (amended). The list query returns the rows of \<^verbatim>\<open>organization\<close> that match the
  filters. For filters whose truthy \<^verbatim>\<open>name\<close>, \<^verbatim>\<open>address_locality\<close> and
  \<^verbatim>\<open>postal_code\<close> values have a string form without \<^verbatim>\<open>%\<close>, \<^verbatim>\<open>_\<close> and
  backslash, a row matches when: every other filter key equals its column; the name, a
  text, contains the \<^verbatim>\<open>name\<close> value (case included); the locality and the postal
  code, texts, start with their values. A falsy or absent value of the three adds no
  condition.
\<close>

theorem filter_semantics:
  assumes "truthy (getProp filters ''name'') \<longrightarrow> plain (toStr (getProp filters ''name''))"
    and "truthy (getProp filters ''address_locality'')
           \<longrightarrow> plain (toStr (getProp filters ''address_locality''))"
    and "truthy (getProp filters ''postal_code'')
           \<longrightarrow> plain (toStr (getProp filters ''postal_code''))"
  shows "set (getFilteredOrganizationsQuery filters sorting d)
           = selectedRow d ` {r \<in> set (organizations d). filterMatches filters r}
    \<and> (filterMatches filters r \<longleftrightarrow>
        (\<forall>p \<in> set (omit filters [''name'', ''address_locality'', ''postal_code'']).
            col r (camelCase (fst p)) = snd p)
      \<and> (truthy (getProp filters ''name'') \<longrightarrow>
           (\<exists>n. col r ''name'' = JStr n \<and> sublist (toStr (getProp filters ''name'')) n))
      \<and> (truthy (getProp filters ''address_locality'') \<longrightarrow>
           (\<exists>n. col r ''addressLocality'' = JStr n
                \<and> prefix (toStr (getProp filters ''address_locality'')) n))
      \<and> (truthy (getProp filters ''postal_code'') \<longrightarrow>
           (\<exists>n. col r ''postalCode'' = JStr n
                \<and> prefix (toStr (getProp filters ''postal_code'')) n)))"
  using query_set [of filters sorting d] filterMatches_plain [OF assms, of r]
  by (rule conjI)

theorem filter_semantics_witness:
  "plain ''Lead'' \<and> plain ''14''
   \<and> filterMatches [(''name'', JStr ''Lead''), (''postal_code'', JStr ''14'')]
        [(''id'', JNum 1), (''name'', JStr ''Data Science Lead''), (''postalCode'', JStr ''14000'')]
   \<and> \<not> filterMatches [(''name'', JStr ''Lead''), (''postal_code'', JStr ''14'')]
        [(''id'', JNum 2), (''name'', JStr ''Data Science Lead''), (''postalCode'', JStr ''61400'')]"
proof -
  let ?filters = "[(''name'', JStr ''Lead''), (''postal_code'', JStr ''14'')]"
  let ?r1 = "[(''id'', JNum 1), (''name'', JStr ''Data Science Lead''), (''postalCode'', JStr ''14000'')]"
  let ?r2 = "[(''id'', JNum 2), (''name'', JStr ''Data Science Lead''), (''postalCode'', JStr ''61400'')]"
  have p1: "plain ''Lead''" and p2: "plain ''14''" by (simp_all add: plain_def)
  have h1: "truthy (getProp ?filters ''name'') \<longrightarrow> plain (toStr (getProp ?filters ''name''))"
    using p1 by (simp add: getProp_def)
  have h2: "truthy (getProp ?filters ''address_locality'')
           \<longrightarrow> plain (toStr (getProp ?filters ''address_locality''))"
    by (simp add: getProp_def)
  have h3: "truthy (getProp ?filters ''postal_code'')
           \<longrightarrow> plain (toStr (getProp ?filters ''postal_code''))"
    using p2 by (simp add: getProp_def)
  have rest: "omit ?filters [''name'', ''address_locality'', ''postal_code''] = []"
    by (simp add: omit_def)
  have sub: "sublist ''Lead'' ''Data Science Lead''"
    unfolding sublist_def
    by (rule exI [of _ "''Data Science ''"], rule exI [of _ "[]"]) simp
  have m1: "filterMatches ?filters ?r1"
    using filter_semantics [OF h1 h2 h3, of "[]" "\<lparr>organizations = [], contact_points = [], collation = byCode\<rparr>" ?r1]
      sub
    by (simp add: rest getProp_def col_def)
  have m2: "\<not> filterMatches ?filters ?r2"
    using filter_semantics [OF h1 h2 h3, of "[]" "\<lparr>organizations = [], contact_points = [], collation = byCode\<rparr>" ?r2]
    by (simp add: rest getProp_def col_def)
  from p1 p2 m1 m2 show ?thesis by simp
qed

section \<open>The reconciliation of an aggregate\<close>

subsection \<open>assign\<close>

lemma getProp_absent: "k \<notin> fst ` set ob \<Longrightarrow> getProp ob k = JUndefined"
proof -
  assume "k \<notin> fst ` set ob"
  then have "map_of ob k = None" by (simp add: map_of_eq_None_iff)
  then show ?thesis by (simp add: getProp_def)
qed

lemma getProp_assign_other:
  "k \<notin> fst ` set cols \<Longrightarrow> getProp (assign cols r) k = getProp r k"
  unfolding assign_def
  by (induction cols arbitrary: r) (auto simp: getProp_update)

lemma col_assign_other:
  "k \<notin> fst ` set cols \<Longrightarrow> col (assign cols r) k = col r k"
  by (simp add: col_def getProp_assign_other)

lemma getProp_assign_member:
  "distinct (map fst cols) \<Longrightarrow> (k, v) \<in> set cols \<Longrightarrow> v \<noteq> JUndefined
     \<Longrightarrow> getProp (assign cols r) k = v"
proof (induction cols arbitrary: r)
  case Nil
  then show ?case by simp
next
  case (Cons p cols)
  show ?case
  proof (cases "p = (k, v)")
    case True
    then have "k \<notin> fst ` set cols" using Cons.prems(1) by force
    then have "getProp (assign cols (AList.update k v r)) k = getProp (AList.update k v r) k"
      by (rule getProp_assign_other)
    then show ?thesis using True Cons.prems(3) by (simp add: assign_def getProp_update)
  next
    case False
    then have "(k, v) \<in> set cols" using Cons.prems(2) by simp
    moreover have "distinct (map fst cols)" using Cons.prems(1) by simp
    ultimately have "\<And>r. getProp (assign cols r) k = v" using Cons.IH Cons.prems(3) by blast
    then show ?thesis by (simp add: assign_def)
  qed
qed

lemma omit_keys: "fst ` set (omit ob ks) = fst ` set ob - set ks"
  by (auto simp: omit_def)

lemma plainEntry_cols:
  "plainEntry c \<Longrightarrow> ''id'' \<notin> fst ` set (omit (spread c) [''identifier''])
      \<and> ''organizationId'' \<notin> fst ` set (omit (spread c) [''identifier''])"
  by (simp add: plainEntry_def omit_keys)

lemma updateRow_rowId: "plainEntry c \<Longrightarrow> rowId (updateRow c r) = rowId r"
  by (simp add: updateRow_def rowId_def col_assign_other plainEntry_cols)

lemma updateRow_org:
  "plainEntry c \<Longrightarrow> col (updateRow c r) ''organizationId'' = col r ''organizationId''"
  by (simp add: updateRow_def col_assign_other plainEntry_cols)

lemma updateAll_rowId: "list_all plainEntry cps \<Longrightarrow> rowId (updateAll cps r) = rowId r"
  unfolding updateAll_def
  by (induction cps arbitrary: r) (simp_all add: updateRow_rowId)

lemma updateAll_org:
  "list_all plainEntry cps
     \<Longrightarrow> col (updateAll cps r) ''organizationId'' = col r ''organizationId''"
  unfolding updateAll_def
  by (induction cps arbitrary: r) (simp_all add: updateRow_org)

lemma updateAll_untouched:
  "\<forall>x \<in> set cps. \<not> (truthy (identifierOf x) \<and> rowId r = identifierOf x)
     \<Longrightarrow> updateAll cps r = r"
  unfolding updateAll_def
  by (induction cps) (auto simp: updateRow_def)

lemma updateAll_single:
  assumes "distinct (filter truthy (map identifierOf cps))" and "list_all plainEntry cps"
    and "c \<in> set cps" and "truthy (identifierOf c)" and "rowId r = identifierOf c"
  shows "updateAll cps r = assign (omit (spread c) [''identifier'']) r"
  using assms
proof (induction cps)
  case Nil
  then show ?case by simp
next
  case (Cons x xs)
  show ?case
  proof (cases "truthy (identifierOf x) \<and> rowId r = identifierOf x")
    case True
    then have tx: "truthy (identifierOf x)" and ex: "rowId r = identifierOf x" by simp_all
    have notin: "identifierOf x \<notin> set (filter truthy (map identifierOf xs))"
      using Cons.prems(1) tx by simp
    have "c = x"
    proof (rule ccontr)
      assume "c \<noteq> x"
      then have "c \<in> set xs" using Cons.prems(3) by simp
      then have "identifierOf c \<in> set (filter truthy (map identifierOf xs))"
        using Cons.prems(4) by simp
      then show False using notin ex Cons.prems(5) by simp
    qed
    let ?r1 = "updateRow x r"
    have id1: "rowId ?r1 = rowId r"
      using Cons.prems(2) by (simp add: updateRow_rowId)
    have "\<forall>y \<in> set xs. \<not> (truthy (identifierOf y) \<and> rowId ?r1 = identifierOf y)"
      using notin ex id1 by auto
    then have "updateAll xs ?r1 = ?r1" by (rule updateAll_untouched)
    then show ?thesis
      using tx ex \<open>c = x\<close> by (simp add: updateAll_def updateRow_def)
  next
    case False
    then have same: "updateRow x r = r" by (auto simp: updateRow_def)
    have "c \<noteq> x" using False Cons.prems(4,5) by auto
    then have "c \<in> set xs" using Cons.prems(3) by simp
    moreover have "distinct (filter truthy (map identifierOf xs))"
      using Cons.prems(1) by (simp split: if_splits)
    moreover have "list_all plainEntry xs" using Cons.prems(2) by simp
    ultimately have "updateAll xs r = assign (omit (spread c) [''identifier'']) r"
      using Cons.IH Cons.prems(4,5) by blast
    then show ?thesis by (simp add: updateAll_def same)
  qed
qed
subsection \<open>Generated ids\<close>

lemma freshId_bound:
  "r \<in> set rs \<Longrightarrow> col r ''id'' = JNum n
     \<Longrightarrow> n \<le> foldr (\<lambda>r m. case col r ''id'' of JNum n \<Rightarrow> max n m | _ \<Rightarrow> m) rs 0"
  by (induction rs) (auto split: jsval.splits)

lemma freshId_fresh: "r \<in> set rs \<Longrightarrow> rowId r \<noteq> freshId rs"
proof
  assume r: "r \<in> set rs" and "rowId r = freshId rs"
  then have "col r ''id'' = JNum (1 + foldr (\<lambda>r m. case col r ''id'' of JNum n \<Rightarrow> max n m | _ \<Rightarrow> m) rs 0)"
    by (simp add: rowId_def freshId_def)
  from freshId_bound [OF r this] show False by simp
qed

lemma freshId_notin: "freshId rs \<notin> rowId ` set rs"
proof
  assume "freshId rs \<in> rowId ` set rs"
  then obtain x where "x \<in> set rs" "freshId rs = rowId x" by blast
  then show False using freshId_fresh [of x rs] by simp
qed

lemma freshId_cong: "map rowId rs = map rowId rs' \<Longrightarrow> freshId rs = freshId rs'"
proof -
  have "foldr (\<lambda>r m. case col r ''id'' of JNum n \<Rightarrow> max n m | _ \<Rightarrow> m) xs 0
      = foldr (\<lambda>i m. case i of JNum n \<Rightarrow> max n m | _ \<Rightarrow> m) (map rowId xs) 0" for xs
    by (induction xs) (simp_all add: rowId_def split: jsval.splits)
  then show "map rowId rs = map rowId rs' \<Longrightarrow> freshId rs = freshId rs'"
    by (simp add: freshId_def)
qed

subsection \<open>New rows\<close>

lemma omit_absent: "fst ` set ob \<inter> set ks = {} \<Longrightarrow> omit ob ks = ob"
  unfolding omit_def by (induction ob) auto

lemma newRow_eq:
  assumes "plainEntry c"
  shows "newRow organizationId c rs
    = AList.update ''id'' (freshId rs) (AList.update ''organizationId'' organizationId (spread c))"
proof -
  have "getProp (spread c) ''id'' = JUndefined"
    using assms by (simp add: plainEntry_def getProp_absent)
  then show ?thesis by (simp add: newRow_def storedRow_def getProp_update)
qed

lemma newRow_rowId: "plainEntry c \<Longrightarrow> rowId (newRow organizationId c rs) = freshId rs"
  by (simp add: newRow_eq rowId_def col_def getProp_update freshId_def)

lemma newRow_org:
  "plainEntry c \<Longrightarrow> organizationId \<noteq> JUndefined
     \<Longrightarrow> col (newRow organizationId c rs) ''organizationId'' = organizationId"
  by (cases organizationId) (simp_all add: newRow_eq col_def getProp_update)

lemma newRow_content:
  assumes "plainEntry c"
  shows "omit (newRow organizationId c rs) [''id'']
           = AList.update ''organizationId'' organizationId (spread c)"
proof -
  have "fst ` set (AList.update ''organizationId'' organizationId (spread c)) \<inter> set [''id''] = {}"
    using assms by (auto simp: dom_update plainEntry_def)
  then show ?thesis
    by (simp add: newRow_eq [OF assms] omit_update_omitted omit_absent)
qed

lemma newRow_cong:
  "map rowId rs = map rowId rs' \<Longrightarrow> newRow organizationId c rs = newRow organizationId c rs'"
  using freshId_cong [of rs rs'] by (simp add: newRow_def storedRow_def)

lemma newRows_length: "length (newRows organizationId cs rs) = length cs"
  by (induction cs arbitrary: rs) simp_all

lemma newRows_fresh:
  "list_all plainEntry cs \<Longrightarrow> r \<in> set (newRows organizationId cs rs)
     \<Longrightarrow> rowId r \<notin> rowId ` set rs"
proof (induction cs arbitrary: rs)
  case Nil
  then show ?case by simp
next
  case (Cons c cs)
  let ?n = "newRow organizationId c rs"
  from Cons.prems(2) consider "r = ?n" | "r \<in> set (newRows organizationId cs (rs @ [?n]))" by auto
  then show ?case
  proof cases
    case 1
    then have "rowId r = freshId rs" using Cons.prems(1) by (simp add: newRow_rowId)
    then show ?thesis using freshId_notin [of rs] by simp
  next
    case 2
    have "list_all plainEntry cs" using Cons.prems(1) by simp
    from Cons.IH [OF this 2] show ?thesis by auto
  qed
qed

lemma newRows_distinct:
  "list_all plainEntry cs \<Longrightarrow> distinct (map rowId rs)
     \<Longrightarrow> distinct (map rowId (rs @ newRows organizationId cs rs))"
proof (induction cs arbitrary: rs)
  case Nil
  then show ?case by simp
next
  case (Cons c cs)
  let ?n = "newRow organizationId c rs"
  have "rowId ?n = freshId rs" using Cons.prems(1) by (simp add: newRow_rowId)
  then have "rowId ?n \<notin> rowId ` set rs" using freshId_notin [of rs] by simp
  then have "distinct (map rowId (rs @ [?n]))" using Cons.prems(2) by simp
  moreover have "list_all plainEntry cs" using Cons.prems(1) by simp
  ultimately have "distinct (map rowId ((rs @ [?n]) @ newRows organizationId cs (rs @ [?n])))"
    by (rule Cons.IH [rotated])
  then show ?case by simp
qed

lemma newRows_org:
  "list_all plainEntry cs \<Longrightarrow> organizationId \<noteq> JUndefined
     \<Longrightarrow> r \<in> set (newRows organizationId cs rs)
     \<Longrightarrow> col r ''organizationId'' = organizationId"
proof (induction cs arbitrary: rs)
  case Nil
  then show ?case by simp
next
  case (Cons c cs)
  let ?n = "newRow organizationId c rs"
  from Cons.prems(3) consider "r = ?n" | "r \<in> set (newRows organizationId cs (rs @ [?n]))" by auto
  then show ?case
  proof cases
    case 1
    then show ?thesis using Cons.prems(1,2) by (simp add: newRow_org)
  next
    case 2
    have "list_all plainEntry cs" using Cons.prems(1) by simp
    from Cons.IH [OF this Cons.prems(2) 2] show ?thesis .
  qed
qed

lemma newRows_content:
  "list_all plainEntry cs
     \<Longrightarrow> list_all2 (\<lambda>r c. omit r [''id''] = AList.update ''organizationId'' organizationId (spread c))
           (newRows organizationId cs rs) cs"
proof (induction cs arbitrary: rs)
  case Nil
  show ?case by simp
next
  case (Cons c cs)
  have c: "plainEntry c" and cs: "list_all plainEntry cs" using Cons.prems by simp_all
  have "omit (newRow organizationId c rs) [''id'']
           = AList.update ''organizationId'' organizationId (spread c)"
    using c by (rule newRow_content)
  moreover have "list_all2 (\<lambda>r c. omit r [''id''] = AList.update ''organizationId'' organizationId (spread c))
           (newRows organizationId cs (rs @ [newRow organizationId c rs])) cs"
    using cs by (rule Cons.IH)
  ultimately show ?case by (simp del: AList.update.simps)
qed
subsection \<open>The statements of a payload\<close>

lemma identifiers_Inr: "identifiers cps = Inr idents \<Longrightarrow> idents = map identifierOf cps"
  by (induction cps arbitrary: idents) (auto simp: identifierOf_def split: sum.splits)

lemma getIdsToDelete_Inr:
  "getIdsToDelete existing cps = Inr toDelete
     \<Longrightarrow> toDelete
         = filter (\<lambda>id. \<not> includes_js (filter truthy (map identifierOf cps)) id) existing"
  by (auto simp: getIdsToDelete_def Let_def split: sum.splits dest: identifiers_Inr)

lemma contactUpdate_Inr:
  "contactUpdate organizationId existing acc c = Inr acc'
     \<Longrightarrow> acc' = acc @ entryStatements organizationId existing c"
  by (auto simp: contactUpdate_def entryStatements_def Let_def identifierOf_def split: sum.splits)

lemma reduce_contactUpdate:
  "reduce (contactUpdate organizationId existing) cps acc = Inr stmts
     \<Longrightarrow> stmts = acc @ concat (map (entryStatements organizationId existing) cps)"
proof (induction cps arbitrary: acc)
  case Nil
  then show ?case by simp
next
  case (Cons c cs)
  then obtain acc' where a: "contactUpdate organizationId existing acc c = Inr acc'"
    and r: "reduce (contactUpdate organizationId existing) cs acc' = Inr stmts"
    by (auto split: sum.splits)
  from contactUpdate_Inr [OF a] Cons.IH [OF r] show ?case by simp
qed

lemma contactUpdates_Inr:
  assumes "contactUpdates organizationId existing (JArr cps) = Inr stmts"
  shows "stmts = concat (map (entryStatements organizationId existing) cps)
           @ map (Delete Contact_point)
               (filter (\<lambda>id. \<not> includes_js (filter truthy (map identifierOf cps)) id) existing)"
proof -
  from assms obtain updates toDelete where
    u: "reduce (contactUpdate organizationId existing) cps [] = Inr updates"
    and d: "getIdsToDelete existing cps = Inr toDelete"
    and s: "stmts = updates @ map (Delete Contact_point) toDelete"
    by (auto simp: contactUpdates_def split: sum.splits)
  from reduce_contactUpdate [OF u] getIdsToDelete_Inr [OF d] s show ?thesis by simp
qed

subsection \<open>Running statements on the contact table\<close>

lemma runAll_Inr:
  "runAll F qs w = Inr w' \<Longrightarrow> w' = fold (\<lambda>q w. fst (exec q w)) qs w"
  by (induction qs arbitrary: w) (auto split: option.splits)

lemma exec_contact:
  "tableOf q = Contact_point
     \<Longrightarrow> fst (exec q d) = d\<lparr>contact_points := execRows q (contact_points d)\<rparr>"
  by (simp add: exec_def)

lemma fold_exec_contact:
  "list_all (\<lambda>q. tableOf q = Contact_point) qs
     \<Longrightarrow> fold (\<lambda>q w. fst (exec q w)) qs d
         = d\<lparr>contact_points := fold execRows qs (contact_points d)\<rparr>"
proof (induction qs arbitrary: d)
  case Nil
  show ?case by simp
next
  case (Cons q qs)
  then have q: "tableOf q = Contact_point" and qs: "list_all (\<lambda>q. tableOf q = Contact_point) qs"
    by simp_all
  show ?case by (simp add: exec_contact [OF q] Cons.IH [OF qs])
qed

lemma fold_deletes:
  "fold execRows (map (Delete Contact_point) toDelete) rs
     = filter (\<lambda>r. rowId r \<notin> set toDelete) rs"
  by (induction toDelete arbitrary: rs) (auto simp: rowId_def intro!: filter_cong)

lemma updateAll_Cons: "updateAll (c # cs) r = updateAll cs (updateRow c r)"
  by (simp add: updateAll_def)

lemma execRows_update:
  "truthy (identifierOf c) \<Longrightarrow>
   execRows (Update Contact_point (identifierOf c) (omit (spread c) [''identifier''])) rs
     = map (updateRow c) rs"
  by (simp add: updateRow_def rowId_def)

lemma fold_entries:
  assumes "list_all plainEntry cps"
    and "\<forall>c \<in> set cps. truthy (identifierOf c) \<longrightarrow> includes_js existing (identifierOf c)"
    and "set existing \<subseteq> rowId ` set rs"
  shows "fold execRows (concat (map (entryStatements organizationId existing) cps)) rs
     = map (updateAll cps) rs
       @ newRows organizationId (filter (\<lambda>c. \<not> truthy (identifierOf c)) cps)
           (map (updateAll cps) rs)"
  using assms
proof (induction cps arbitrary: rs)
  case Nil
  show ?case by (simp add: updateAll_def)
next
  case (Cons c cs)
  have pc: "plainEntry c" and pcs: "list_all plainEntry cs" using Cons.prems(1) by simp_all
  have stale: "\<forall>x \<in> set cs. truthy (identifierOf x) \<longrightarrow> includes_js existing (identifierOf x)"
    using Cons.prems(2) by simp
  show ?case
  proof (cases "truthy (identifierOf c)")
    case True
    then have inc: "includes_js existing (identifierOf c)" using Cons.prems(2) by simp
    let ?rs1 = "map (updateRow c) rs"
    have ids: "rowId ` set ?rs1 = rowId ` set rs"
      using pc by (auto simp: updateRow_rowId image_iff)
    have "set existing \<subseteq> rowId ` set ?rs1" using Cons.prems(3) ids by simp
    from Cons.IH [OF pcs stale this]
    have ih: "fold execRows (concat (map (entryStatements organizationId existing) cs)) ?rs1
       = map (updateAll cs) ?rs1
         @ newRows organizationId (filter (\<lambda>c. \<not> truthy (identifierOf c)) cs)
             (map (updateAll cs) ?rs1)" .
    have all: "map (updateAll cs) ?rs1 = map (updateAll (c # cs)) rs"
      by (simp add: updateAll_Cons)
    have e: "entryStatements organizationId existing c
        = [Update Contact_point (identifierOf c) (omit (spread c) [''identifier''])]"
      using True inc by (simp add: entryStatements_def)
    have "fold execRows (concat (map (entryStatements organizationId existing) (c # cs))) rs
        = fold execRows (concat (map (entryStatements organizationId existing) cs)) ?rs1"
      by (simp add: e execRows_update [OF True] del: execRows.simps)
    also have "\<dots> = map (updateAll (c # cs)) rs
         @ newRows organizationId (filter (\<lambda>c. \<not> truthy (identifierOf c)) cs)
             (map (updateAll (c # cs)) rs)"
      unfolding ih all ..
    finally show ?thesis using True by simp
  next
    case False
    let ?n = "newRow organizationId c rs"
    let ?rs' = "map (updateAll cs) rs"
    have same: "updateRow c r = r" for r using False by (simp add: updateRow_def)
    have all: "map (updateAll (c # cs)) rs = ?rs'" by (simp add: updateAll_Cons same)
    have nid: "rowId ?n = freshId rs" using pc by (rule newRow_rowId)
    have "\<forall>x \<in> set cs. \<not> (truthy (identifierOf x) \<and> rowId ?n = identifierOf x)"
    proof (intro ballI notI)
      fix x assume x: "x \<in> set cs" and "truthy (identifierOf x) \<and> rowId ?n = identifierOf x"
      then have "includes_js existing (identifierOf x)" and e: "rowId ?n = identifierOf x"
        using stale by simp_all
      then have "identifierOf x \<in> set existing" by (simp add: includes_js_iff)
      then have "rowId ?n \<in> rowId ` set rs" using Cons.prems(3) e by auto
      then show False using nid freshId_notin [of rs] by simp
    qed
    then have untouched: "updateAll cs ?n = ?n" by (rule updateAll_untouched)
    have "set existing \<subseteq> rowId ` set (rs @ [?n])" using Cons.prems(3) by auto
    from Cons.IH [OF pcs stale this]
    have ih: "fold execRows (concat (map (entryStatements organizationId existing) cs)) (rs @ [?n])
       = (?rs' @ [?n])
         @ newRows organizationId (filter (\<lambda>c. \<not> truthy (identifierOf c)) cs) (?rs' @ [?n])"
      by (simp add: untouched)
    have "map rowId ?rs' = map rowId rs"
      using pcs by (simp add: updateAll_rowId)
    then have n': "newRow organizationId c ?rs' = ?n" by (rule newRow_cong)
    have e: "entryStatements organizationId existing c
        = [Insert Contact_point (AList.update ''organizationId'' organizationId (spread c))]"
      using False by (simp add: entryStatements_def)
    have "fold execRows (concat (map (entryStatements organizationId existing) (c # cs))) rs
        = fold execRows (concat (map (entryStatements organizationId existing) cs)) (rs @ [?n])"
      by (simp add: e newRow_def)
    also have "\<dots> = ?rs' @ (?n # newRows organizationId
                 (filter (\<lambda>c. \<not> truthy (identifierOf c)) cs) (?rs' @ [?n]))"
      unfolding ih by simp
    also have "\<dots> = ?rs' @ newRows organizationId
                 (filter (\<lambda>c. \<not> truthy (identifierOf c)) (c # cs)) ?rs'"
      using False by (simp add: n')
    finally show ?thesis unfolding all .
  qed
qed
lemma entryStatements_accepted:
  "concat (map (entryStatements organizationId existing) (accepted existing cps))
     = concat (map (entryStatements organizationId existing) cps)"
  by (induction cps) (auto simp: accepted_def entryStatements_def)

lemma fold_entries_general:
  assumes "list_all plainEntry cps" and "set existing \<subseteq> rowId ` set rs"
  shows "fold execRows (concat (map (entryStatements organizationId existing) cps)) rs
     = map (updateAll (accepted existing cps)) rs
       @ newRows organizationId (filter (\<lambda>c. \<not> truthy (identifierOf c)) cps)
           (map (updateAll (accepted existing cps)) rs)"
proof -
  let ?A = "accepted existing cps"
  have p: "list_all plainEntry ?A" using assms(1) by (simp add: accepted_def list_all_iff)
  have n: "\<forall>c \<in> set ?A. truthy (identifierOf c) \<longrightarrow> includes_js existing (identifierOf c)"
    by (auto simp: accepted_def)
  have f: "filter (\<lambda>c. \<not> truthy (identifierOf c)) ?A = filter (\<lambda>c. \<not> truthy (identifierOf c)) cps"
    unfolding accepted_def filter_filter by (rule filter_cong) auto
  from fold_entries [OF p n assms(2), of organizationId] show ?thesis
    by (simp only: entryStatements_accepted f)
qed

lemma updateAll_accepted:
  "list_all plainEntry cps \<Longrightarrow> includes_js existing (rowId r)
     \<Longrightarrow> updateAll (accepted existing cps) r = updateAll cps r"
proof (induction cps arbitrary: r)
  case Nil
  show ?case by (simp add: accepted_def)
next
  case (Cons c cs)
  have pc: "plainEntry c" and pcs: "list_all plainEntry cs" using Cons.prems(1) by simp_all
  show ?case
  proof (cases "\<not> truthy (identifierOf c) \<or> includes_js existing (identifierOf c)")
    case True
    then have a: "accepted existing (c # cs) = c # accepted existing cs" by (simp add: accepted_def)
    have "includes_js existing (rowId (updateRow c r))"
      using Cons.prems(2) pc by (simp add: updateRow_rowId)
    from Cons.IH [OF pcs this] show ?thesis by (simp add: a updateAll_Cons)
  next
    case False
    then have a: "accepted existing (c # cs) = accepted existing cs" by (simp add: accepted_def)
    have "rowId r \<noteq> identifierOf c" using False Cons.prems(2) by auto
    then have "updateRow c r = r" by (simp add: updateRow_def)
    with Cons.IH [OF pcs Cons.prems(2)] show ?thesis by (simp add: a updateAll_Cons)
  qed
qed

lemma referenced_iff: "referenced cps i \<longleftrightarrow> scalar i \<and> truthy i \<and> i \<in> identifierOf ` set cps"
  by (auto simp: referenced_def includes_js_iff)

lemma selectContactIds_contactsOf:
  "selectContactIds organizationId d = map rowId (contactsOf organizationId d)"
  unfolding selectContactIds_def camelCase_columns contactsOf_def rowId_def ..

lemma update_statements_run:
  assumes steps: "updateSteps F organizationId p d = Inr d2"
    and cps: "contactPoints p = JArr cps"
  shows "contact_points d2
     = filter (\<lambda>r. rowId r \<notin> set (filter (\<lambda>i. \<not> referenced cps i)
                                    (selectContactIds organizationId d)))
         (fold execRows
            (concat (map (entryStatements organizationId (selectContactIds organizationId d)) cps))
            (contact_points d))"
proof -
  let ?S = "selectContactIds organizationId d"
  let ?d1 = "fst (exec (Update Organization organizationId (organization p)) d)"
  from steps obtain stmts where
    cu: "contactUpdates organizationId ?S (JArr cps) = Inr stmts"
    and ra: "runAll F stmts ?d1 = Inr d2"
    by (auto simp: updateSteps_def cps split: option.splits sum.splits)
  let ?U = "concat (map (entryStatements organizationId ?S) cps)"
  let ?D = "filter (\<lambda>i. \<not> referenced cps i) ?S"
  have stmts: "stmts = ?U @ map (Delete Contact_point) ?D"
    using contactUpdates_Inr [OF cu] by (simp add: referenced_def)
  have tables: "list_all (\<lambda>q. tableOf q = Contact_point) stmts"
    unfolding stmts by (auto simp: list_all_iff entryStatements_def)
  have d1: "contact_points ?d1 = contact_points d" by (simp add: exec_def)
  have "d2 = fold (\<lambda>q w. fst (exec q w)) stmts ?d1" using ra by (rule runAll_Inr)
  then have "contact_points d2 = fold execRows stmts (contact_points d)"
    by (simp add: fold_exec_contact [OF tables] d1)
  also have "\<dots> = fold execRows (map (Delete Contact_point) ?D) (fold execRows ?U (contact_points d))"
    by (simp add: stmts)
  finally show ?thesis by (simp only: fold_deletes)
qed

lemma update_gone:
  assumes steps: "updateSteps F organizationId p d = Inr d2"
    and cps: "contactPoints p = JArr cps"
  shows "\<forall>i \<in> set (selectContactIds organizationId d).
          \<not> referenced cps i \<longrightarrow> i \<notin> rowId ` set (contact_points d2)"
  unfolding update_statements_run [OF steps cps] by auto

lemma update_contact_table:
  assumes steps: "updateSteps F organizationId p d = Inr d2"
    and cps: "contactPoints p = JArr cps"
    and plain: "list_all plainEntry cps"
  shows "contact_points d2
     = filter (\<lambda>r. rowId r \<notin> set (filter (\<lambda>i. \<not> referenced cps i)
                                    (selectContactIds organizationId d)))
         (map (updateAll (accepted (selectContactIds organizationId d) cps)) (contact_points d)
          @ newRows organizationId (filter (\<lambda>c. \<not> truthy (identifierOf c)) cps)
              (map (updateAll (accepted (selectContactIds organizationId d) cps))
                 (contact_points d)))"
proof -
  have "set (selectContactIds organizationId d) \<subseteq> rowId ` set (contact_points d)"
    by (auto simp: selectContactIds_contactsOf contactsOf_def)
  from fold_entries_general [OF plain this, of organizationId] show ?thesis
    by (simp only: update_statements_run [OF steps cps])
qed

lemma update_kept:
  assumes steps: "updateSteps F organizationId p d = Inr d2"
    and cps: "contactPoints p = JArr cps"
    and plain: "list_all plainEntry cps"
  shows "\<forall>i \<in> set (selectContactIds organizationId d).
          referenced cps i \<longrightarrow> i \<in> rowId ` set (contactsOf organizationId d2)"
proof (intro ballI impI)
  fix i assume i: "i \<in> set (selectContactIds organizationId d)" and ref: "referenced cps i"
  let ?A = "accepted (selectContactIds organizationId d) cps"
  have pa: "list_all plainEntry ?A" using plain by (simp add: accepted_def list_all_iff)
  from i obtain r where r: "r \<in> set (contact_points d)"
    "col r ''organizationId'' = organizationId" "rowId r = i"
    by (auto simp: selectContactIds_contactsOf contactsOf_def)
  let ?r = "updateAll ?A r"
  have id: "rowId ?r = i" using pa r(3) by (simp add: updateAll_rowId)
  have org: "col ?r ''organizationId'' = organizationId" using pa r(2) by (simp add: updateAll_org)
  have "?r \<in> set (contact_points d2)"
    unfolding update_contact_table [OF steps cps plain] using r(1) id ref by auto
  then have "?r \<in> set (contactsOf organizationId d2)" using org by (simp add: contactsOf_def)
  then show "i \<in> rowId ` set (contactsOf organizationId d2)" using id by force
qed

lemma update_contacts_of:
  assumes steps: "updateSteps F organizationId p d = Inr d2"
    and cps: "contactPoints p = JArr cps"
    and plain: "list_all plainEntry cps"
    and org: "organizationId \<noteq> JUndefined"
  shows "contactsOf organizationId d2
     = map (updateAll cps) (filter (\<lambda>r. referenced cps (rowId r)) (contactsOf organizationId d))
       @ newRows organizationId (filter (\<lambda>c. \<not> truthy (identifierOf c)) cps)
              (map (updateAll (accepted (selectContactIds organizationId d) cps))
                 (contact_points d))"
proof -
  let ?S = "selectContactIds organizationId d"
  let ?A = "accepted ?S cps"
  let ?D = "filter (\<lambda>i. \<not> referenced cps i) ?S"
  let ?T = "map (updateAll ?A) (contact_points d)"
  let ?N = "newRows organizationId (filter (\<lambda>c. \<not> truthy (identifierOf c)) cps) ?T"
  let ?P = "\<lambda>r. rowId r \<notin> set ?D \<and> col r ''organizationId'' = organizationId"
  let ?K = "filter (\<lambda>r. referenced cps (rowId r)) (contactsOf organizationId d)"
  have pa: "list_all plainEntry ?A" using plain by (simp add: accepted_def list_all_iff)
  have fs: "list_all plainEntry (filter (\<lambda>c. \<not> truthy (identifierOf c)) cps)"
    using plain by (simp add: list_all_iff)
  have idsT: "rowId ` set ?T = rowId ` set (contact_points d)"
    using pa by (auto simp: updateAll_rowId image_iff)
  have S: "set ?S \<subseteq> rowId ` set (contact_points d)"
    by (auto simp: selectContactIds_contactsOf contactsOf_def)
  have "contactsOf organizationId d2 = filter ?P (?T @ ?N)"
    by (simp add: contactsOf_def update_contact_table [OF steps cps plain] conj_commute)
  also have "\<dots> = filter ?P ?T @ filter ?P ?N" by simp
  also have "filter ?P ?N = ?N"
  proof (rule filter_True, rule ballI, rule conjI)
    fix r assume r: "r \<in> set ?N"
    from newRows_fresh [OF fs r] idsT have "rowId r \<notin> rowId ` set (contact_points d)"
      by simp
    then show "rowId r \<notin> set ?D" using S by auto
    from newRows_org [OF fs org r] show "col r ''organizationId'' = organizationId" .
  qed
  also have "filter ?P ?T = map (updateAll cps) ?K"
  proof -
    have "filter ?P ?T = map (updateAll ?A) (filter (?P \<circ> updateAll ?A) (contact_points d))"
      by (rule filter_map)
    also have "filter (?P \<circ> updateAll ?A) (contact_points d) = ?K"
      unfolding contactsOf_def filter_filter
    proof (rule filter_cong [OF refl])
      fix r assume r: "r \<in> set (contact_points d)"
      show "(?P \<circ> updateAll ?A) r
          = (col r ''organizationId'' = organizationId \<and> referenced cps (rowId r))"
      proof (cases "col r ''organizationId'' = organizationId")
        case True
        then have "rowId r \<in> set ?S"
          using r by (auto simp: selectContactIds_contactsOf contactsOf_def)
        then show ?thesis
          using True pa by (auto simp: updateAll_rowId updateAll_org)
      next
        case False
        then show ?thesis using pa by (simp add: updateAll_org)
      qed
    qed
    also have "map (updateAll ?A) ?K = map (updateAll cps) ?K"
    proof (rule map_cong [OF refl])
      fix r assume "r \<in> set ?K"
      then have "referenced cps (rowId r)" and "rowId r \<in> set ?S"
        by (auto simp: selectContactIds_contactsOf)
      then have "includes_js ?S (rowId r)" by (simp add: referenced_iff includes_js_iff)
      with plain show "updateAll ?A r = updateAll cps r" by (rule updateAll_accepted)
    qed
    finally show ?thesis .
  qed
  finally show ?thesis .
qed


lemma referenced_count:
  assumes pk: "distinct (map rowId (contact_points d))"
    and nostale: "\<forall>c \<in> set cps. truthy (identifierOf c)
                    \<longrightarrow> includes_js (selectContactIds organizationId d) (identifierOf c)"
    and nodup: "distinct (filter truthy (map identifierOf cps))"
  shows "length (filter (\<lambda>r. referenced cps (rowId r)) (contactsOf organizationId d))
       = length (filter (\<lambda>c. truthy (identifierOf c)) cps)"
proof -
  let ?A = "map rowId (filter (\<lambda>r. referenced cps (rowId r)) (contactsOf organizationId d))"
  let ?I = "filter truthy (map identifierOf cps)"
  have dA: "distinct ?A"
    unfolding contactsOf_def using pk by (simp add: distinct_map_filter)
  have "set ?A = set ?I"
  proof (intro equalityI subsetI)
    fix x assume "x \<in> set ?A"
    then have "referenced cps x" by auto
    then show "x \<in> set ?I" by (auto simp: referenced_iff)
  next
    fix x assume x: "x \<in> set ?I"
    then obtain c where c: "c \<in> set cps" "x = identifierOf c" "truthy (identifierOf c)" by auto
    with nostale have inc: "includes_js (selectContactIds organizationId d) x" by simp
    then have sc: "scalar x" and "x \<in> set (selectContactIds organizationId d)"
      by (simp_all add: includes_js_iff)
    then obtain r where r: "r \<in> set (contactsOf organizationId d)" "rowId r = x"
      by (auto simp: selectContactIds_contactsOf)
    have "referenced cps x" using sc c by (auto simp: referenced_iff)
    with r show "x \<in> set ?A" by auto
  qed
  then have "card (set ?A) = card (set ?I)" by (rule arg_cong)
  moreover have "card (set ?A) = length ?A" using dA by (rule distinct_card)
  moreover have "card (set ?I) = length ?I" using nodup by (rule distinct_card)
  ultimately have "length ?A = length ?I" by simp
  moreover have "length ?I = length (filter (\<lambda>c. truthy (identifierOf c)) cps)"
    by (simp add: filter_map comp_def)
  moreover have "length ?A
      = length (filter (\<lambda>r. referenced cps (rowId r)) (contactsOf organizationId d))"
    by (rule length_map)
  ultimately show ?thesis by simp
qed

lemma col_defined: "col r k \<noteq> JUndefined"
  by (simp add: col_def split: jsval.splits)

lemma fold_inserts:
  "fold execRows
       (map (\<lambda>c. Insert Contact_point (AList.update ''organizationId'' organizationId (spread c))) cs)
       rs
     = rs @ newRows organizationId cs rs"
  by (induction cs arbitrary: rs) (simp_all add: newRow_def)

lemma reduce_contactToCreate:
  "reduce (contactToCreate organizationId) cs acc
     = Inr (acc @ map (\<lambda>c. Insert Contact_point
                             (AList.update ''organizationId'' organizationId (spread c))) cs)"
  by (induction cs arbitrary: acc) (simp_all add: contactToCreate_def)

lemma create_contact_table:
  assumes steps: "createSteps F p d = Inr (d2, organizationId)"
    and cps: "contactPoints p = JArr cps"
  shows "contact_points d2 = contact_points d @ newRows organizationId cps (contact_points d)"
    and "organizationId \<noteq> JUndefined"
proof -
  let ?ins = "Insert Organization (organization p)"
  let ?d1 = "fst (exec ?ins d)"
  from steps obtain stmts where
    oid: "firstOf (snd (exec ?ins d)) = Inr organizationId"
    and cc: "contactsToCreate organizationId (JArr cps) = Inr stmts"
    and ra: "runAll F stmts ?d1 = Inr d2"
    by (auto simp: createSteps_def cps split: option.splits sum.splits)
  from oid show "organizationId \<noteq> JUndefined"
    by (auto simp: exec_def col_defined)
  have stmts: "stmts = map (\<lambda>c. Insert Contact_point
                             (AList.update ''organizationId'' organizationId (spread c))) cps"
    using cc by (simp add: contactsToCreate_def reduce_contactToCreate)
  have tables: "list_all (\<lambda>q. tableOf q = Contact_point) stmts"
    unfolding stmts by (simp add: list_all_iff)
  have d1: "contact_points ?d1 = contact_points d" by (simp add: exec_def)
  have "d2 = fold (\<lambda>q w. fst (exec q w)) stmts ?d1" using ra by (rule runAll_Inr)
  then have "contact_points d2 = fold execRows stmts (contact_points d)"
    by (simp add: fold_exec_contact [OF tables] d1)
  then show "contact_points d2 = contact_points d @ newRows organizationId cps (contact_points d)"
    by (simp only: stmts fold_inserts)
qed

lemma update_reconciled:
  assumes prep: "prepareOrganizationDataForSave apiData = Inr p"
    and cps: "contactPoints p = JArr cps"
    and steps: "updateSteps F organizationId p d = Inr d2"
  shows "snd (run (updateOrganization F organizationId apiData) d) = d2"
    and "\<forall>i \<in> set (selectContactIds organizationId d).
            \<not> referenced cps i \<longrightarrow> i \<notin> rowId ` set (contact_points d2)"
    and "list_all plainEntry cps \<Longrightarrow> distinct (map rowId (contact_points d))
           \<Longrightarrow> distinct (map rowId (contact_points d2))"
    and "list_all plainEntry cps \<Longrightarrow>
           \<forall>i \<in> set (selectContactIds organizationId d).
             referenced cps i \<longrightarrow> i \<in> rowId ` set (contactsOf organizationId d2)"
    and "list_all plainEntry cps \<Longrightarrow> organizationId \<noteq> JUndefined \<Longrightarrow>
           \<exists>N. contactsOf organizationId d2
                  = map (updateAll cps)
                      (filter (\<lambda>r. referenced cps (rowId r)) (contactsOf organizationId d)) @ N
              \<and> list_all2
                   (\<lambda>r c. omit r [''id'']
                            = AList.update ''organizationId'' organizationId (spread c))
                   N (filter (\<lambda>c. \<not> truthy (identifierOf c)) cps)
              \<and> (\<forall>r \<in> set N. rowId r \<notin> rowId ` set (contact_points d))
              \<and> map rowId (contactsOf organizationId d2)
                  = filter (referenced cps) (selectContactIds organizationId d) @ map rowId N"
    and "list_all plainEntry cps \<Longrightarrow> organizationId \<noteq> JUndefined
           \<Longrightarrow> \<forall>c \<in> set cps. truthy (identifierOf c)
                    \<longrightarrow> includes_js (selectContactIds organizationId d) (identifierOf c)
           \<Longrightarrow> distinct (filter truthy (map identifierOf cps))
           \<Longrightarrow> distinct (map rowId (contact_points d))
           \<Longrightarrow> length (contactsOf organizationId d2) = length cps"
proof -
  let ?S = "selectContactIds organizationId d"
  let ?A = "accepted ?S cps"
  let ?fs = "filter (\<lambda>c. \<not> truthy (identifierOf c)) cps"
  let ?T = "map (updateAll ?A) (contact_points d)"
  let ?N = "newRows organizationId ?fs ?T"
  let ?K = "filter (\<lambda>r. referenced cps (rowId r)) (contactsOf organizationId d)"
  show "snd (run (updateOrganization F organizationId apiData) d) = d2"
    using updateOrganization_steps [OF prep, of F organizationId d] steps by simp
  show "\<forall>i \<in> set ?S. \<not> referenced cps i \<longrightarrow> i \<notin> rowId ` set (contact_points d2)"
    by (rule update_gone [OF steps cps])
  {
    assume plain: "list_all plainEntry cps"
    have pa: "list_all plainEntry ?A" using plain by (simp add: accepted_def list_all_iff)
    have fs: "list_all plainEntry ?fs" using plain by (simp add: list_all_iff)
    have idT: "map rowId ?T = map rowId (contact_points d)"
      using pa by (simp add: updateAll_rowId)
    show "\<forall>i \<in> set ?S. referenced cps i \<longrightarrow> i \<in> rowId ` set (contactsOf organizationId d2)"
      by (rule update_kept [OF steps cps plain])
    {
      assume pk: "distinct (map rowId (contact_points d))"
      have "distinct (map rowId ?T)" unfolding idT by (rule pk)
      then have "distinct (map rowId (?T @ ?N))" by (rule newRows_distinct [OF fs])
      then show "distinct (map rowId (contact_points d2))"
        unfolding update_contact_table [OF steps cps plain]
        by (rule distinct_map_filter)
    }
    assume org: "organizationId \<noteq> JUndefined"
    have table: "contactsOf organizationId d2 = map (updateAll cps) ?K @ ?N"
      by (rule update_contacts_of [OF steps cps plain org])
    have content: "list_all2
               (\<lambda>r c. omit r [''id'']
                        = AList.update ''organizationId'' organizationId (spread c)) ?N ?fs"
      by (rule newRows_content [OF fs])
    have idsT: "rowId ` set ?T = rowId ` set (contact_points d)"
      using arg_cong [OF idT, of set] by (simp only: set_map)
    have fresh: "\<forall>r \<in> set ?N. rowId r \<notin> rowId ` set (contact_points d)"
    proof
      fix r assume "r \<in> set ?N"
      from newRows_fresh [OF fs this] have "rowId r \<notin> rowId ` set ?T" .
      then show "rowId r \<notin> rowId ` set (contact_points d)" unfolding idsT .
    qed
    have ids: "map rowId (contactsOf organizationId d2)
              = filter (referenced cps) ?S @ map rowId ?N"
      using plain
      by (simp add: table updateAll_rowId selectContactIds_contactsOf filter_map comp_def)
    from table content fresh ids
    show "\<exists>N. contactsOf organizationId d2 = map (updateAll cps) ?K @ N
              \<and> list_all2
                   (\<lambda>r c. omit r [''id'']
                            = AList.update ''organizationId'' organizationId (spread c))
                   N ?fs
              \<and> (\<forall>r \<in> set N. rowId r \<notin> rowId ` set (contact_points d))
              \<and> map rowId (contactsOf organizationId d2)
                  = filter (referenced cps) ?S @ map rowId N"
      by blast
    assume nostale: "\<forall>c \<in> set cps. truthy (identifierOf c)
                    \<longrightarrow> includes_js ?S (identifierOf c)"
      and nodup: "distinct (filter truthy (map identifierOf cps))"
      and pk: "distinct (map rowId (contact_points d))"
    have "length (contactsOf organizationId d2) = length ?K + length ?fs"
      by (simp add: table newRows_length)
    also have "length ?K = length (filter (\<lambda>c. truthy (identifierOf c)) cps)"
      by (rule referenced_count [OF pk nostale nodup])
    finally show "length (contactsOf organizationId d2) = length cps"
      using sum_length_filter_compl [of "\<lambda>c. truthy (identifierOf c)" cps] by simp
  }
qed

lemma referenced_snapshot:
  assumes "\<forall>c \<in> set cps. truthy (identifierOf c) \<longrightarrow> includes_js existing (identifierOf c)"
  shows "set (filter (referenced cps) existing) = set (filter truthy (map identifierOf cps))"
proof (intro equalityI subsetI)
  fix x assume "x \<in> set (filter (referenced cps) existing)"
  then show "x \<in> set (filter truthy (map identifierOf cps))" by (auto simp: referenced_iff)
next
  fix x assume "x \<in> set (filter truthy (map identifierOf cps))"
  then obtain c where c: "c \<in> set cps" "x = identifierOf c" "truthy (identifierOf c)" by auto
  with assms have "includes_js existing x" by simp
  then have "scalar x" "x \<in> set existing" by (simp_all add: includes_js_iff)
  with c show "x \<in> set (filter (referenced cps) existing)" by (auto simp: referenced_iff)
qed

lemma create_reconciled:
  assumes prep: "prepareOrganizationDataForSave apiData = Inr p"
    and cps: "contactPoints p = JArr cps"
    and steps: "createSteps F p d = Inr (d2, organizationId)"
  shows "snd (run (createOrganization F apiData) d) = d2"
    and "list_all plainEntry cps \<Longrightarrow>
           \<exists>N. contactsOf organizationId d2 = contactsOf organizationId d @ N
              \<and> list_all2
                   (\<lambda>r c. omit r [''id'']
                            = AList.update ''organizationId'' organizationId (spread c))
                   N cps
              \<and> (\<forall>r \<in> set N. rowId r \<notin> rowId ` set (contact_points d))"
    and "list_all plainEntry cps \<Longrightarrow> distinct (map rowId (contact_points d))
           \<Longrightarrow> distinct (map rowId (contact_points d2))"
proof -
  let ?N = "newRows organizationId cps (contact_points d)"
  note tbl = create_contact_table [OF steps cps]
  show "snd (run (createOrganization F apiData) d) = d2"
    using createOrganization_steps [OF prep, of F d] steps by simp
  {
    assume plain: "list_all plainEntry cps"
    have "filter (\<lambda>c. col c ''organizationId'' = organizationId) ?N = ?N"
      by (rule filter_True) (use newRows_org [OF plain tbl(2)] in blast)
    then have of: "contactsOf organizationId d2 = contactsOf organizationId d @ ?N"
      by (simp add: contactsOf_def tbl(1))
    have content: "list_all2
         (\<lambda>r c. omit r [''id''] = AList.update ''organizationId'' organizationId (spread c))
         ?N cps"
      by (rule newRows_content [OF plain])
    have fresh: "\<forall>r \<in> set ?N. rowId r \<notin> rowId ` set (contact_points d)"
      using newRows_fresh [OF plain] by blast
    from of content fresh
    show "\<exists>N. contactsOf organizationId d2 = contactsOf organizationId d @ N
              \<and> list_all2
                   (\<lambda>r c. omit r [''id'']
                            = AList.update ''organizationId'' organizationId (spread c))
                   N cps
              \<and> (\<forall>r \<in> set N. rowId r \<notin> rowId ` set (contact_points d))"
      by blast
    assume pk: "distinct (map rowId (contact_points d))"
    show "distinct (map rowId (contact_points d2))"
      unfolding tbl(1) using plain pk by (rule newRows_distinct)
  }
qed

text \<open>
  C1 (as stated). The organization 7 has the contact points 1 and 2; the update payload
  describes one contact point, whose identifier 9 is not in the snapshot. The update
  completes without error, and the organization has no contact point afterwards: the
  stored set is not the set of the payload.
\<close>

theorem stale_identifier_counterexample:
  "run (updateOrganization noFaults (JNum 7) stalePayload) exampleDb
     = (Resolved
          (JObj [(''id'', JNum 7), (''name'', JStr ''Acme''), (''contactPoints'', JNull),
                 (''address'',
                    JObj [(''addressCountry'', JStr ''FR''), (''addressLocality'', JStr ''Caen''),
                          (''postalCode'', JStr ''14000''), (''streetAddress'', JStr ''1 quai'')])]),
        \<lparr>organizations =
           [[(''id'', JNum 7), (''name'', JStr ''Acme''), (''addressCountry'', JStr ''FR''),
             (''addressLocality'', JStr ''Caen''), (''postalCode'', JStr ''14000''),
             (''streetAddress'', JStr ''1 quai'')]],
         contact_points = [], collation = byCode\<rparr>)"
proof (rule prod_eqI)
  let ?r = "run (updateOrganization noFaults (JNum 7) stalePayload) exampleDb"
  let ?d = "\<lparr>organizations =
           [[(''id'', JNum 7), (''name'', JStr ''Acme''), (''addressCountry'', JStr ''FR''),
             (''addressLocality'', JStr ''Caen''), (''postalCode'', JStr ''14000''),
             (''streetAddress'', JStr ''1 quai'')]],
         contact_points = [], collation = byCode\<rparr>"
  have "fst ?r = Resolved
          (JObj [(''id'', JNum 7), (''name'', JStr ''Acme''), (''contactPoints'', JNull),
                 (''address'',
                    JObj [(''addressCountry'', JStr ''FR''), (''addressLocality'', JStr ''Caen''),
                          (''postalCode'', JStr ''14000''), (''streetAddress'', JStr ''1 quai'')])])"
    by code_simp
  then show "fst ?r = fst (Resolved
          (JObj [(''id'', JNum 7), (''name'', JStr ''Acme''), (''contactPoints'', JNull),
                 (''address'',
                    JObj [(''addressCountry'', JStr ''FR''), (''addressLocality'', JStr ''Caen''),
                          (''postalCode'', JStr ''14000''), (''streetAddress'', JStr ''1 quai'')])]),
          ?d)"
    by simp
  have "snd ?r = ?d"
  proof (rule db_equal)
    show "organizations (snd ?r) = organizations ?d" by code_simp
    show "contact_points (snd ?r) = contact_points ?d" by code_simp
    show "collation (snd ?r) = collation ?d"
      by (simp add: updateOrganization_collation exampleDb_def)
  qed
  then show "snd ?r = snd (Resolved
          (JObj [(''id'', JNum 7), (''name'', JStr ''Acme''), (''contactPoints'', JNull),
                 (''address'',
                    JObj [(''addressCountry'', JStr ''FR''), (''addressLocality'', JStr ''Caen''),
                          (''postalCode'', JStr ''14000''), (''streetAddress'', JStr ''1 quai'')])]),
          ?d)"
    by simp
qed


text \<open>
  C1 (amended). Let the payload be prepared and its \<^verbatim>\<open>contactPoints\<close> an array.

  Update, when the transaction commits. The database afterwards is the committed one, and
  no id of the snapshot that the payload does not reference is left in the table. For a
  payload of plain entries: distinct ids of the table stay distinct; every id of the
  snapshot that the payload references is still the id of a contact point of the
  organization; and, for a defined organization id, the contact points of the organization
  are the rows of the snapshot that the payload references, each updated by the entries
  that name it and with its id kept, followed by one new row per entry with a falsy
  identifier, in the order of the payload: the entry with the organization id, under an id
  that was not in the table. An entry with a truthy identifier that is not in the snapshot
  is not among them. When every truthy identifier of the payload is in the snapshot, the
  ids kept are exactly the truthy identifiers of the payload; when moreover these are
  pairwise distinct and the ids of the table are distinct, there are as many contact
  points as the payload has entries. With pairwise distinct truthy identifiers, a row
  named by an entry takes the properties of this entry (all but the identifier).

  Create, when the transaction commits. The database afterwards is the committed one. For
  a payload of plain entries, the contact points of the new organization are those that
  already referred to its id (none in a database that keeps its references) followed by
  one new row per entry of the payload, in its order, and distinct ids of the table stay
  distinct.
\<close>

theorem contact_points_reconciled:
  assumes "prepareOrganizationDataForSave apiData = Inr p"
    and "contactPoints p = JArr cps"
  shows
    "(updateSteps F organizationId p d = Inr d' \<longrightarrow>
        snd (run (updateOrganization F organizationId apiData) d) = d'
        \<and> (\<forall>i \<in> set (selectContactIds organizationId d).
              \<not> referenced cps i \<longrightarrow> i \<notin> rowId ` set (contact_points d'))
        \<and> (list_all plainEntry cps \<and> distinct (map rowId (contact_points d))
             \<longrightarrow> distinct (map rowId (contact_points d')))
        \<and> (list_all plainEntry cps \<longrightarrow>
             (\<forall>i \<in> set (selectContactIds organizationId d).
                referenced cps i \<longrightarrow> i \<in> rowId ` set (contactsOf organizationId d')))
        \<and> (list_all plainEntry cps \<and> organizationId \<noteq> JUndefined \<longrightarrow>
             (\<exists>N. contactsOf organizationId d'
                      = map (updateAll cps)
                          (filter (\<lambda>r. referenced cps (rowId r)) (contactsOf organizationId d))
                        @ N
                  \<and> list_all2
                       (\<lambda>r c. omit r [''id'']
                                = AList.update ''organizationId'' organizationId (spread c))
                       N (filter (\<lambda>c. \<not> truthy (identifierOf c)) cps)
                  \<and> (\<forall>r \<in> set N. rowId r \<notin> rowId ` set (contact_points d))
                  \<and> map rowId (contactsOf organizationId d')
                      = filter (referenced cps) (selectContactIds organizationId d)
                        @ map rowId N))
        \<and> ((\<forall>c \<in> set cps. truthy (identifierOf c)
                \<longrightarrow> includes_js (selectContactIds organizationId d) (identifierOf c))
             \<longrightarrow>
               set (filter (referenced cps) (selectContactIds organizationId d))
                 = set (filter truthy (map identifierOf cps))
               \<and> (list_all plainEntry cps \<and> organizationId \<noteq> JUndefined
                   \<and> distinct (filter truthy (map identifierOf cps))
                   \<and> distinct (map rowId (contact_points d))
                   \<longrightarrow> length (contactsOf organizationId d') = length cps))
        \<and> (list_all plainEntry cps \<and> distinct (filter truthy (map identifierOf cps)) \<longrightarrow>
             (\<forall>c \<in> set cps. truthy (identifierOf c) \<longrightarrow>
                (\<forall>r. rowId r = identifierOf c \<longrightarrow>
                   updateAll cps r = assign (omit (spread c) [''identifier'']) r))))
   \<and> (createSteps F p d = Inr (d', organizationId) \<longrightarrow>
        snd (run (createOrganization F apiData) d) = d'
        \<and> (list_all plainEntry cps \<longrightarrow>
             (\<exists>N. contactsOf organizationId d' = contactsOf organizationId d @ N
                  \<and> list_all2
                       (\<lambda>r c. omit r [''id'']
                                = AList.update ''organizationId'' organizationId (spread c))
                       N cps
                  \<and> (\<forall>r \<in> set N. rowId r \<notin> rowId ` set (contact_points d)))
             \<and> (distinct (map rowId (contact_points d))
                  \<longrightarrow> distinct (map rowId (contact_points d')))))"
proof (rule conjI; rule impI)
  assume steps: "updateSteps F organizationId p d = Inr d'"
  note u = update_reconciled [OF assms steps]
  have single: "list_all plainEntry cps \<and> distinct (filter truthy (map identifierOf cps)) \<longrightarrow>
             (\<forall>c \<in> set cps. truthy (identifierOf c) \<longrightarrow>
                (\<forall>r. rowId r = identifierOf c \<longrightarrow>
                   updateAll cps r = assign (omit (spread c) [''identifier'']) r))"
    using updateAll_single [of cps] by blast
  from u(1) u(2) u(3) u(4) u(5) u(6) referenced_snapshot [of cps "selectContactIds organizationId d"] single
  show "snd (run (updateOrganization F organizationId apiData) d) = d'
        \<and> (\<forall>i \<in> set (selectContactIds organizationId d).
              \<not> referenced cps i \<longrightarrow> i \<notin> rowId ` set (contact_points d'))
        \<and> (list_all plainEntry cps \<and> distinct (map rowId (contact_points d))
             \<longrightarrow> distinct (map rowId (contact_points d')))
        \<and> (list_all plainEntry cps \<longrightarrow>
             (\<forall>i \<in> set (selectContactIds organizationId d).
                referenced cps i \<longrightarrow> i \<in> rowId ` set (contactsOf organizationId d')))
        \<and> (list_all plainEntry cps \<and> organizationId \<noteq> JUndefined \<longrightarrow>
             (\<exists>N. contactsOf organizationId d'
                      = map (updateAll cps)
                          (filter (\<lambda>r. referenced cps (rowId r)) (contactsOf organizationId d))
                        @ N
                  \<and> list_all2
                       (\<lambda>r c. omit r [''id'']
                                = AList.update ''organizationId'' organizationId (spread c))
                       N (filter (\<lambda>c. \<not> truthy (identifierOf c)) cps)
                  \<and> (\<forall>r \<in> set N. rowId r \<notin> rowId ` set (contact_points d))
                  \<and> map rowId (contactsOf organizationId d')
                      = filter (referenced cps) (selectContactIds organizationId d)
                        @ map rowId N))
        \<and> ((\<forall>c \<in> set cps. truthy (identifierOf c)
                \<longrightarrow> includes_js (selectContactIds organizationId d) (identifierOf c))
             \<longrightarrow>
               set (filter (referenced cps) (selectContactIds organizationId d))
                 = set (filter truthy (map identifierOf cps))
               \<and> (list_all plainEntry cps \<and> organizationId \<noteq> JUndefined
                   \<and> distinct (filter truthy (map identifierOf cps))
                   \<and> distinct (map rowId (contact_points d))
                   \<longrightarrow> length (contactsOf organizationId d') = length cps))
        \<and> (list_all plainEntry cps \<and> distinct (filter truthy (map identifierOf cps)) \<longrightarrow>
             (\<forall>c \<in> set cps. truthy (identifierOf c) \<longrightarrow>
                (\<forall>r. rowId r = identifierOf c \<longrightarrow>
                   updateAll cps r = assign (omit (spread c) [''identifier'']) r)))"
    by blast
next
  assume steps: "createSteps F p d = Inr (d', organizationId)"
  note c = create_reconciled [OF assms steps]
  from c(1) c(2) c(3)
  show "snd (run (createOrganization F apiData) d) = d'
        \<and> (list_all plainEntry cps \<longrightarrow>
             (\<exists>N. contactsOf organizationId d' = contactsOf organizationId d @ N
                  \<and> list_all2
                       (\<lambda>r c. omit r [''id'']
                                = AList.update ''organizationId'' organizationId (spread c))
                       N cps
                  \<and> (\<forall>r \<in> set N. rowId r \<notin> rowId ` set (contact_points d)))
             \<and> (distinct (map rowId (contact_points d))
                  \<longrightarrow> distinct (map rowId (contact_points d'))))"
    by blast
qed

lemma scenario_steps:
  "updateSteps noFaults (JNum 7)
      \<lparr>organization =
            [(''name'', JStr ''Acme''), (''addressCountry'', JStr ''FR''),
             (''addressLocality'', JStr ''Caen''), (''postalCode'', JStr ''14000''),
             (''streetAddress'', JStr ''1 quai'')],
          contactPoint = JObj [(''identifier'', JNum 1), (''contactType'', JStr ''phone''),
                               (''email'', JStr ''new@x.com'')],
          contactPoints = JArr [JObj [(''identifier'', JNum 1), (''contactType'', JStr ''phone''),
                     (''email'', JStr ''new@x.com'')],
               JObj [(''contactType'', JStr ''fax''), (''email'', JStr ''y@x.com'')]]\<rparr>
      exampleDb = Inr reconciledDb"
    (is "?steps = _")
proof -
  have "case ?steps of
          Inl e \<Rightarrow> False
        | Inr d2 \<Rightarrow> organizations d2 = organizations reconciledDb
                    \<and> contact_points d2 = contact_points reconciledDb"
    by code_simp
  then obtain d2 where d2: "?steps = Inr d2"
    and t: "organizations d2 = organizations reconciledDb"
           "contact_points d2 = contact_points reconciledDb"
    by (auto split: sum.splits)
  have "collation d2 = collation exampleDb" using d2 by (rule updateSteps_collation)
  then have "collation d2 = collation reconciledDb" by (simp add: exampleDb_def reconciledDb_def)
  with t have "d2 = reconciledDb" by (rule db_equal)
  with d2 show ?thesis by simp
qed

lemma scenario_snapshot: "selectContactIds (JNum 7) exampleDb = [JNum 1, JNum 2]"
  by code_simp

lemma scenario_contacts: "map rowId (contactsOf (JNum 7) reconciledDb) = [JNum 1, JNum 3]"
  by code_simp

lemma threeContactsPayload_prepared:
  "prepareOrganizationDataForSave threeContactsPayload = Inr threeContactsPrepared"
  by code_simp

lemma threeContacts_steps:
  "createSteps noFaults threeContactsPrepared
      \<lparr>organizations = [], contact_points = [], collation = byCode\<rparr>
     = Inr (threeContactsDb, JNum 1)"
    (is "?steps = _")
proof -
  have "case ?steps of
          Inl e \<Rightarrow> False
        | Inr r \<Rightarrow> organizations (fst r) = organizations threeContactsDb
                   \<and> contact_points (fst r) = contact_points threeContactsDb
                   \<and> snd r = JNum 1"
    by code_simp
  then obtain d2 where d2: "?steps = Inr (d2, JNum 1)"
    and t: "organizations d2 = organizations threeContactsDb"
           "contact_points d2 = contact_points threeContactsDb"
    by (auto split: sum.splits)
  have "collation d2 = collation \<lparr>organizations = [], contact_points = [], collation = byCode\<rparr>"
    using d2 by (rule createSteps_collation)
  then have "collation d2 = collation threeContactsDb" by (simp add: threeContactsDb_def)
  with t have "d2 = threeContactsDb" by (rule db_equal)
  with d2 show ?thesis by simp
qed

theorem contact_points_reconciled_witness:
  "snd (run (updateOrganization noFaults (JNum 7) examplePayload) exampleDb) = reconciledDb
   \<and> length (contactsOf (JNum 7) reconciledDb) = 2
   \<and> distinct (map rowId (contact_points reconciledDb))
   \<and> map rowId (contactsOf (JNum 7) reconciledDb) = [JNum 1, JNum 3]
   \<and> JNum 2 \<notin> rowId ` set (contact_points reconciledDb)
   \<and> snd (run (createOrganization noFaults threeContactsPayload)
             \<lparr>organizations = [], contact_points = [], collation = byCode\<rparr>)
       = threeContactsDb
   \<and> distinct (map rowId (contact_points threeContactsDb))
   \<and> (\<exists>N. contactsOf (JNum 1) threeContactsDb = N
          \<and> list_all2
               (\<lambda>r c. omit r [''id''] = AList.update ''organizationId'' (JNum 1) (spread c))
               N [JObj [(''contactType'', JStr ''phone''), (''telephone'', JStr ''0231'')],
                  JObj [(''contactType'', JStr ''email''), (''email'', JStr ''a@x.com'')],
                  JObj [(''contactType'', JStr ''fax''), (''telephone'', JStr ''0232'')]])"
proof -
  let ?cps = "[JObj [(''identifier'', JNum 1), (''contactType'', JStr ''phone''),
                     (''email'', JStr ''new@x.com'')],
               JObj [(''contactType'', JStr ''fax''), (''email'', JStr ''y@x.com'')]]"
  let ?new = "[JObj [(''contactType'', JStr ''phone''), (''telephone'', JStr ''0231'')],
               JObj [(''contactType'', JStr ''email''), (''email'', JStr ''a@x.com'')],
               JObj [(''contactType'', JStr ''fax''), (''telephone'', JStr ''0232'')]]"
  let ?empty = "\<lparr>organizations = [], contact_points = [], collation = byCode\<rparr>"
  note prep = examplePayload_prepared
  have plain: "list_all plainEntry ?cps" by (simp add: plainEntry_def)
  have pk: "distinct (map rowId (contact_points exampleDb))"
    by (simp add: exampleDb_def rowId_def col_def getProp_def)
  have ids: "map identifierOf ?cps = [JNum 1, JUndefined]"
    by (simp add: identifierOf_def getProp_def)
  have nostale: "\<forall>c \<in> set ?cps. truthy (identifierOf c)
             \<longrightarrow> includes_js (selectContactIds (JNum 7) exampleDb) (identifierOf c)"
    by (simp add: scenario_snapshot identifierOf_def getProp_def includes_js_def sameValueZero_def)
  have nodup: "distinct (filter truthy (map identifierOf ?cps))"
    unfolding ids by simp
  have org: "JNum 7 \<noteq> JUndefined" by simp
  have snap: "JNum 2 \<in> set (selectContactIds (JNum 7) exampleDb)"
    by (simp add: scenario_snapshot)
  have unref: "\<not> referenced ?cps (JNum 2)"
    by (simp add: referenced_iff identifierOf_def getProp_def)
  from contact_points_reconciled [OF prep _, where cps = ?cps and F = noFaults
      and organizationId = "JNum 7" and d = exampleDb and d' = reconciledDb]
    scenario_steps plain pk org nostale nodup snap unref
  have u: "snd (run (updateOrganization noFaults (JNum 7) examplePayload) exampleDb) = reconciledDb"
    "length (contactsOf (JNum 7) reconciledDb) = length ?cps"
    "distinct (map rowId (contact_points reconciledDb))"
    "JNum 2 \<notin> rowId ` set (contact_points reconciledDb)"
    by simp_all
  have cps3: "contactPoints threeContactsPrepared = JArr ?new"
    by (simp add: threeContactsPrepared_def)
  have plain3: "list_all plainEntry ?new" by (simp add: plainEntry_def)
  have pk3: "distinct (map rowId (contact_points ?empty))" by simp
  have none: "contactsOf (JNum 1) ?empty = []" by (simp add: contactsOf_def)
  from contact_points_reconciled [OF threeContactsPayload_prepared cps3, where F = noFaults
      and organizationId = "JNum 1" and d = ?empty and d' = threeContactsDb]
    threeContacts_steps plain3 pk3 none
  have c: "snd (run (createOrganization noFaults threeContactsPayload) ?empty) = threeContactsDb"
    "distinct (map rowId (contact_points threeContactsDb))"
    "\<exists>N. contactsOf (JNum 1) threeContactsDb = N
          \<and> list_all2
               (\<lambda>r c. omit r [''id''] = AList.update ''organizationId'' (JNum 1) (spread c))
               N ?new"
    by simp_all
  from u c scenario_contacts show ?thesis by simp
qed

section \<open>Entries with a falsy identifier\<close>












end
